theory Spec2Isabelle
  imports Main
begin

section \<open>Exceptions\<close>

text \<open>
  The Python exceptions that the modelled code raises, catches or lets through. Each
  constructor stands for the class together with its subclasses:
  \<^item> \<open>IndexError\<close>: \<^verbatim>\<open>items[0]\<close> on an empty list;
  \<^item> \<open>AttributeError\<close>: a method the object does not have;
  \<^item> \<open>SMTPException\<close>: \<^verbatim>\<open>smtplib.SMTPException\<close> (itself a subclass of \<^verbatim>\<open>OSError\<close>);
  \<^item> \<open>SocketError\<close>: \<^verbatim>\<open>socket.error\<close>, that is \<^verbatim>\<open>OSError\<close>, other than \<open>SMTPException\<close>;
  \<^item> \<open>IMAP4_abort\<close>: \<^verbatim>\<open>imaplib.IMAP4.abort\<close>;
  \<^item> \<open>IMAP4_error\<close>: \<^verbatim>\<open>imaplib.IMAP4.error\<close> that is not an \<^verbatim>\<open>abort\<close>
    (what \<^verbatim>\<open>connection.error(...)\<close> constructs);
  \<^item> \<open>KeyboardInterrupt\<close>, \<open>SystemExit\<close>: the two exceptions outside \<^verbatim>\<open>Exception\<close>;
  \<^item> \<open>OtherException\<close>: any other subclass of \<^verbatim>\<open>Exception\<close>.
  A computation that may raise returns \<open>exn + 'a\<close>, with \<open>Inl\<close> for the exception.
\<close>

datatype exn =
    IndexError
  | AttributeError
  | SMTPException
  | SocketError
  | IMAP4_abort
  | IMAP4_error
  | KeyboardInterrupt
  | SystemExit
  | OtherException

section \<open>The query DSL (query_dsl.py)\<close>

text \<open>
  An expression of the DSL is a Python list of thunks. A thunk is one of the four closures
  the module builds: the field lambda of \<^verbatim>\<open>From\<close>/\<^verbatim>\<open>To\<close>/\<^verbatim>\<open>Cc\<close>/\<^verbatim>\<open>Subject\<close>, and the
  closures returned by \<^verbatim>\<open>or_combine\<close>, \<^verbatim>\<open>and_combine\<close> and \<^verbatim>\<open>not_combine\<close>, each holding
  its list of items. \<open>call\<close> is the application \<^verbatim>\<open>thunk()\<close>.
\<close>

datatype field = FROM | TO | CC | SUBJECT

datatype thunk =
    field_thunk field string
  | or_combine "thunk list"
  | and_combine "thunk list"
  | not_combine "thunk list"

fun keyword :: "field \<Rightarrow> string" where
  "keyword FROM = ''FROM''"
| "keyword TO = ''TO''"
| "keyword CC = ''CC''"
| "keyword SUBJECT = ''SUBJECT''"

definition dquote :: char where
  "dquote = CHR 0x22"

text \<open>\<^verbatim>\<open>sep.join(xs)\<close>\<close>

fun join :: "string \<Rightarrow> string list \<Rightarrow> string" where
  "join sep [] = []"
| "join sep [x] = x"
| "join sep (x # y # ys) = x @ sep @ join sep (y # ys)"

text \<open>
  The generator \<^verbatim>\<open>x() for x in items\<close> of \<^verbatim>\<open>not_combine\<close>: the results in order, or the
  first exception.
\<close>

fun call_each :: "(exn + string) list \<Rightarrow> exn + string list" where
  "call_each [] = Inr []"
| "call_each (Inl e # rs) = Inl e"
| "call_each (Inr s # rs) = (case call_each rs of Inl e \<Rightarrow> Inl e | Inr ss \<Rightarrow> Inr (s # ss))"

text \<open>
  One round of the loops in \<^verbatim>\<open>or_combine\<close> and \<^verbatim>\<open>and_combine\<close>:
  \<^verbatim>\<open>result = f"(OR {result} {item()})"\<close> and \<^verbatim>\<open>result = f"({result} {item()})"\<close>.
\<close>

definition or_step :: "exn + string \<Rightarrow> exn + string \<Rightarrow> exn + string" where
  "or_step item result =
     (case result of
        Inl e \<Rightarrow> Inl e
      | Inr r \<Rightarrow> (case item of
                    Inl e \<Rightarrow> Inl e
                  | Inr s \<Rightarrow> Inr (''(OR '' @ r @ '' '' @ s @ '')'')))"

definition and_step :: "exn + string \<Rightarrow> exn + string \<Rightarrow> exn + string" where
  "and_step item result =
     (case result of
        Inl e \<Rightarrow> Inl e
      | Inr r \<Rightarrow> (case item of
                    Inl e \<Rightarrow> Inl e
                  | Inr s \<Rightarrow> Inr (''('' @ r @ '' '' @ s @ '')'')))"

fun call :: "thunk \<Rightarrow> exn + string" where
  "call (field_thunk f v) = Inr (''('' @ keyword f @ '' '' @ [dquote] @ v @ [dquote] @ '')'')"
| "call (or_combine items) =
     (case map call items of
        [] \<Rightarrow> Inl IndexError
      | first # rest \<Rightarrow> fold or_step rest first)"
| "call (and_combine items) =
     (case map call items of
        [] \<Rightarrow> Inl IndexError
      | first # rest \<Rightarrow> fold and_step rest first)"
| "call (not_combine items) =
     (case call_each (map call items) of
        Inl e \<Rightarrow> Inl e
      | Inr ss \<Rightarrow> Inr (''(NOT '' @ join '' '' ss @ '')''))"

text \<open>The builders; \<^verbatim>\<open>*args\<close> is the list of arguments.\<close>

definition From :: "string list \<Rightarrow> thunk list" where
  "From args = map (field_thunk FROM) args"

definition To :: "string list \<Rightarrow> thunk list" where
  "To args = map (field_thunk TO) args"

definition Cc :: "string list \<Rightarrow> thunk list" where
  "Cc args = map (field_thunk CC) args"

definition Subject :: "string list \<Rightarrow> thunk list" where
  "Subject args = map (field_thunk SUBJECT) args"

definition AnyOf :: "thunk list list \<Rightarrow> thunk list" where
  "AnyOf args = [or_combine (concat args)]"

definition AllOf :: "thunk list list \<Rightarrow> thunk list" where
  "AllOf args = [and_combine (concat args)]"

definition Not :: "thunk list list \<Rightarrow> thunk list" where
  "Not args = [not_combine (concat args)]"

definition parseQuery :: "thunk list \<Rightarrow> exn + string" where
  "parseQuery expr = (if length expr = 1 then call (expr ! 0) else call (or_combine expr))"

subsection \<open>Properties of a compiled search string\<close>

text \<open>
  Parentheses are balanced when no closing parenthesis comes before its opening one and
  none stays open: \<open>balanced_from d\<close> reads the string at nesting depth \<open>d\<close>.
\<close>

fun balanced_from :: "nat \<Rightarrow> string \<Rightarrow> bool" where
  "balanced_from d [] = (d = 0)"
| "balanced_from d (c # cs) =
     (if c = CHR ''('' then balanced_from (Suc d) cs
      else if c = CHR '')'' then 0 < d \<and> balanced_from (d - 1) cs
      else balanced_from d cs)"

definition balanced :: "string \<Rightarrow> bool" where
  "balanced s = balanced_from 0 s"

text \<open>
  The atoms of a search string are its words outside double-quoted values: the scanner
  skips from an opening double quote to the next one, and cuts words at spaces and
  parentheses. Its state is the atoms found so far, whether it is inside quotes, and the
  word being read.
\<close>

type_synonym scan_state = "string list \<times> bool \<times> string"

definition flush :: "string \<Rightarrow> string list" where
  "flush cur = (if cur = [] then [] else [cur])"

fun scan_step :: "char \<Rightarrow> scan_state \<Rightarrow> scan_state" where
  "scan_step c (acc, inquote, cur) =
     (if inquote then (acc, c \<noteq> dquote, [])
      else if c = dquote then (acc @ flush cur, True, [])
      else if c = CHR '' '' \<or> c = CHR ''('' \<or> c = CHR '')'' then (acc @ flush cur, False, [])
      else (acc, False, cur @ [c]))"

definition atoms :: "string \<Rightarrow> string list" where
  "atoms s = (case fold scan_step s ([], False, []) of (acc, inquote, cur) \<Rightarrow> acc @ flush cur)"

definition valid_keywords :: "string set" where
  "valid_keywords = {''FROM'', ''TO'', ''CC'', ''SUBJECT'', ''OR'', ''NOT''}"

text \<open>A thunk whose field values contain neither a parenthesis nor a double quote.\<close>

fun plain_values :: "thunk \<Rightarrow> bool" where
  "plain_values (field_thunk f v) =
     (CHR ''('' \<notin> set v \<and> CHR '')'' \<notin> set v \<and> dquote \<notin> set v)"
| "plain_values (or_combine items) = (\<forall>x \<in> set items. plain_values x)"
| "plain_values (and_combine items) = (\<forall>x \<in> set items. plain_values x)"
| "plain_values (not_combine items) = (\<forall>x \<in> set items. plain_values x)"

text \<open>
  The invariant of compilation: a well-formed string leaves the nesting depth and the
  scanner state as it found them, and contributes only valid keywords.
\<close>

definition wellformed :: "string \<Rightarrow> bool" where
  "wellformed s \<longleftrightarrow>
     (\<forall>d rest. balanced_from d (s @ rest) = balanced_from d rest) \<and>
     (\<exists>kws. set kws \<subseteq> valid_keywords \<and>
        (\<forall>acc. fold scan_step s (acc, False, []) = (acc @ kws, False, [])))"

definition wellformed_result :: "exn + string \<Rightarrow> bool" where
  "wellformed_result r = (case r of Inl e \<Rightarrow> True | Inr s \<Rightarrow> wellformed s)"

section \<open>Data of the handlers (handlers.py, email_utils.py, proxy_utils.py)\<close>

text \<open>
  One element of the data of a FETCH response is either a byte string or a tuple of byte
  strings; \<^verbatim>\<open>isinstance(ret, (list, tuple))\<close> tells them apart and \<^verbatim>\<open>ret[1]\<close> is the
  raw message. A status is the string the server returns (\<^verbatim>\<open>"OK"\<close>, \<^verbatim>\<open>"NO"\<close>, ...).
\<close>

type_synonym bytes = string

datatype fetch_item = Bytes bytes | Tuple "bytes list"

type_synonym data = "fetch_item list"

type_synonym status = string

text \<open>
  A parsed message (\<^verbatim>\<open>email.message.Message\<close>, which both parsers return): its header
  list in order, whether it is multipart, and its payload. \<^verbatim>\<open>themail[name]\<close> is the value
  of the first header whose name equals \<^verbatim>\<open>name\<close> when both are put in lower case, or None.
  \<^verbatim>\<open>not themail\<close> holds exactly when the message has no header (the class defines
  \<^verbatim>\<open>__len__\<close> as the number of headers and no \<^verbatim>\<open>__bool__\<close>).
\<close>

record email_msg =
  headers :: "(string \<times> string) list"
  is_multipart :: bool
  payload :: string

datatype attachment = NoAttachment | AttachMessage email_msg | AttachContent bytes

text \<open>
  An outgoing message is given by the keyword arguments of \<^verbatim>\<open>email_utils.build_message\<close>,
  which determine it up to the fresh Message-ID and the date.
\<close>

record message =
  msg_subject :: "string option"
  msg_from_addr :: string
  msg_to_addr :: "string option"
  msg_body :: string
  msg_subject_prefix :: "string option"
  msg_in_reply_to :: "string option"
  msg_reply_to :: "string option"
  msg_message_id_domain :: "string option"
  msg_attach :: attachment

text \<open>
  The calls the code makes on its collaborators, in the order it makes them. A call is
  recorded when it is made, whether it returns or raises.
\<close>

datatype event =
    Imap_connect
  | Imap_disconnect
  | Imap_search string
  | Imap_fetch "bytes list"
  | Imap_store "bytes list" string
  | Imap_copy "bytes list" string
  | Imap_expunge
  | Imap_append string message
  | Imap_idle
  | Smtp_send string "string option" message
  | Http_fetch string
  | Time_sleep int

type_synonym trace = "event list"

text \<open>
  A set of Message-IDs; the identifier of a message is \<^verbatim>\<open>themail["Message-ID"]\<close>, which is
  None when the header is absent.
\<close>

type_synonym seen = "string option set"

text \<open>
  The collaborators. Each answers a call from the calls made so far and the arguments:
  it returns a value or raises. \<^verbatim>\<open>parse_message\<close> is \<^verbatim>\<open>message.decode("utf-8")\<close> followed
  by the parser of the email library; \<^verbatim>\<open>build_raises\<close> tells whether the email library raises
  while the message is built; \<^verbatim>\<open>extract_urls\<close> is the scan that \<^verbatim>\<open>proxy_extract_urls\<close> makes
  of a message that is not multipart, with the URLs in the order the loop visits them;
  \<^verbatim>\<open>fetch_and_transform\<close> is the download and conversion inside
  \<^verbatim>\<open>proxy_build_message_from_url\<close>, giving the subject, body and attachment of the message
  to build; \<^verbatim>\<open>imap_search\<close> gives the status and \<^verbatim>\<open>data[0].split()\<close>.
\<close>

record env =
  parse_message :: "bytes \<Rightarrow> exn + email_msg"
  build_raises :: "message \<Rightarrow> exn option"
  extract_urls :: "email_msg \<Rightarrow> exn + string list"
  fetch_and_transform :: "trace \<Rightarrow> string \<Rightarrow> exn + (string option \<times> string \<times> attachment)"
  send_fn :: "trace \<Rightarrow> string \<Rightarrow> string option \<Rightarrow> message \<Rightarrow> exn + unit"
  imap_connect :: "trace \<Rightarrow> exn + unit"
  capabilities :: "string list"
  imap_search :: "trace \<Rightarrow> string \<Rightarrow> exn + (status \<times> bytes list)"
  imap_fetch :: "trace \<Rightarrow> bytes list \<Rightarrow> exn + (status \<times> data)"
  imap_store :: "trace \<Rightarrow> bytes list \<Rightarrow> string \<Rightarrow> exn + (status \<times> data)"
  imap_copy :: "trace \<Rightarrow> bytes list \<Rightarrow> string \<Rightarrow> exn + (status \<times> data)"
  imap_expunge :: "trace \<Rightarrow> exn + (status \<times> data)"
  imap_append :: "trace \<Rightarrow> string \<Rightarrow> message \<Rightarrow> exn + (status \<times> data)"
  imap_idle :: "trace \<Rightarrow> exn + (status \<times> (string \<times> bytes list) list)"

text \<open>
  The configuration module. The three body fields stand for the language detection and
  the template lookup (\<^verbatim>\<open>detect_language\<close>, \<^verbatim>\<open>config.work_reply.get(lang, ...)\<close> and the
  formatting of the forward note), which no property below depends on.
\<close>

record config =
  work_forward_to :: string
  work_reply_from :: string
  work_forward_by :: string
  work_reply_body :: "email_msg \<Rightarrow> string"
  work_forward_note_body :: "email_msg \<Rightarrow> string option \<Rightarrow> string"
  obnoxious_reply_from :: string
  obnoxious_reply_body :: "email_msg \<Rightarrow> string"
  proxy_send_from :: string
  proxy_store_to :: string
  kindle_send_from :: string
  kindle_send_to :: string

text \<open>\<^verbatim>\<open>str.lower\<close> on ASCII letters, and the substring test \<^verbatim>\<open>p in s\<close>.\<close>

definition lower_char :: "char \<Rightarrow> char" where
  "lower_char c =
     (case map_of (zip ''ABCDEFGHIJKLMNOPQRSTUVWXYZ'' ''abcdefghijklmnopqrstuvwxyz'') c of
        Some l \<Rightarrow> l | None \<Rightarrow> c)"

definition lower :: "string \<Rightarrow> string" where
  "lower s = map lower_char s"

fun startswith :: "string \<Rightarrow> string \<Rightarrow> bool" where
  "startswith s [] = True"
| "startswith [] (p # ps) = False"
| "startswith (c # cs) (p # ps) = (c = p \<and> startswith cs ps)"

fun py_in :: "string \<Rightarrow> string \<Rightarrow> bool" where
  "py_in p [] = (p = [])"
| "py_in p (c # cs) = (startswith (c # cs) p \<or> py_in p cs)"

text \<open>
  \<^verbatim>\<open>Message.__getitem__\<close>: \<^verbatim>\<open>name = name.lower()\<close>, then the first pair \<^verbatim>\<open>(k, v)\<close> of
  the header list with \<^verbatim>\<open>k.lower() == name\<close>.
\<close>

definition getitem :: "email_msg \<Rightarrow> string \<Rightarrow> string option" where
  "getitem themail name = map_of (map (\<lambda>(k, v). (lower k, v)) (headers themail)) (lower name)"

text \<open>
  Python truth of a header value: None and the empty string are false. \<^verbatim>\<open>a or b\<close> is
  \<^verbatim>\<open>a\<close> when \<^verbatim>\<open>a\<close> is true and \<^verbatim>\<open>b\<close> otherwise.
\<close>

definition truthy :: "string option \<Rightarrow> bool" where
  "truthy v = (case v of None \<Rightarrow> False | Some s \<Rightarrow> s \<noteq> [])"

definition py_or :: "string option \<Rightarrow> string option \<Rightarrow> string option" where
  "py_or a b = (if truthy a then a else b)"

definition should_process_message :: "string option \<Rightarrow> seen \<Rightarrow> bool \<times> seen" where
  "should_process_message message_id seen_ids =
     (if message_id \<in> seen_ids then (False, seen_ids) else (True, seen_ids \<union> {message_id}))"

definition build_message :: "env \<Rightarrow> message \<Rightarrow> exn + message" where
  "build_message env args = (case build_raises env args of Some e \<Rightarrow> Inl e | None \<Rightarrow> Inr args)"

text \<open>The calls on the connection and on \<^verbatim>\<open>send_fn\<close>, each recorded in the trace.\<close>

definition server_expunge :: "env \<Rightarrow> trace \<Rightarrow> (exn + status \<times> data) \<times> trace" where
  "server_expunge env t = (imap_expunge env t, t @ [Imap_expunge])"

definition server_uid_store :: "env \<Rightarrow> bytes list \<Rightarrow> string \<Rightarrow> trace \<Rightarrow> (exn + status \<times> data) \<times> trace" where
  "server_uid_store env listofuids flag t = (imap_store env t listofuids flag, t @ [Imap_store listofuids flag])"

definition server_uid_copy :: "env \<Rightarrow> bytes list \<Rightarrow> string \<Rightarrow> trace \<Rightarrow> (exn + status \<times> data) \<times> trace" where
  "server_uid_copy env listofuids folder t = (imap_copy env t listofuids folder, t @ [Imap_copy listofuids folder])"

definition server_uid_fetch :: "env \<Rightarrow> bytes list \<Rightarrow> trace \<Rightarrow> (exn + status \<times> data) \<times> trace" where
  "server_uid_fetch env listofuids t = (imap_fetch env t listofuids, t @ [Imap_fetch listofuids])"

definition server_uid_search :: "env \<Rightarrow> string \<Rightarrow> trace \<Rightarrow> (exn + status \<times> bytes list) \<times> trace" where
  "server_uid_search env query t = (imap_search env t query, t @ [Imap_search query])"

definition server_append :: "env \<Rightarrow> string \<Rightarrow> message \<Rightarrow> trace \<Rightarrow> (exn + status \<times> data) \<times> trace" where
  "server_append env folder msg t = (imap_append env t folder msg, t @ [Imap_append folder msg])"

definition call_send_fn :: "env \<Rightarrow> string \<Rightarrow> string option \<Rightarrow> message \<Rightarrow> trace \<Rightarrow> (exn + unit) \<times> trace" where
  "call_send_fn env sender recipient msg t = (send_fn env t sender recipient msg, t @ [Smtp_send sender recipient msg])"

text \<open>The Deleted flag: an opening parenthesis, a backslash, the word Deleted and a closing parenthesis.\<close>

definition deleted_flag :: string where
  "deleted_flag = ''('' @ [CHR 0x5C] @ ''Deleted)''"

section \<open>Handlers (handlers.py)\<close>

text \<open>
  A handler takes the matched UIDs and the set of seen Message-IDs and returns
  \<^verbatim>\<open>(res, data, seen_ids)\<close>, or raises. \<open>X_handler\<close> is the function \<^verbatim>\<open>handler\<close> inside
  the factory \<^verbatim>\<open>X\<close>.
\<close>

type_synonym handler_result = "(exn + status \<times> data \<times> seen) \<times> trace"

definition Expunge_handler :: "env \<Rightarrow> bytes list \<Rightarrow> seen \<Rightarrow> trace \<Rightarrow> handler_result" where
  "Expunge_handler env listofuids seen_ids t =
     (case server_expunge env t of
        (Inl e, t') \<Rightarrow> (Inl e, t')
      | (Inr (res, data), t') \<Rightarrow> (Inr (res, data, seen_ids), t'))"

definition Delete_handler :: "env \<Rightarrow> bytes list \<Rightarrow> seen \<Rightarrow> trace \<Rightarrow> handler_result" where
  "Delete_handler env listofuids seen_ids t =
     (case server_uid_store env listofuids deleted_flag t of
        (Inl e, t') \<Rightarrow> (Inl e, t')
      | (Inr (res, data), t') \<Rightarrow> (Inr (res, data, seen_ids), t'))"

definition Copy_handler :: "env \<Rightarrow> string \<Rightarrow> bytes list \<Rightarrow> seen \<Rightarrow> trace \<Rightarrow> handler_result" where
  "Copy_handler env folder listofuids seen_ids t =
     (case server_uid_copy env listofuids folder t of
        (Inl e, t') \<Rightarrow> (Inl e, t')
      | (Inr (res, data), t') \<Rightarrow> (Inr (res, data, seen_ids), t'))"

definition Move_handler :: "env \<Rightarrow> string \<Rightarrow> bytes list \<Rightarrow> seen \<Rightarrow> trace \<Rightarrow> handler_result" where
  "Move_handler env folder listofuids seen_ids t =
     (case Copy_handler env folder listofuids seen_ids t of
        (Inl e, t') \<Rightarrow> (Inl e, t')
      | (Inr (res, data, seen_ids'), t') \<Rightarrow>
          if res = ''OK'' then Delete_handler env listofuids seen_ids' t'
          else (Inr (res, data, seen_ids'), t'))"

definition SetFlags_handler :: "env \<Rightarrow> string \<Rightarrow> bytes list \<Rightarrow> seen \<Rightarrow> trace \<Rightarrow> handler_result" where
  "SetFlags_handler env flag listofuids seen_ids t =
     (case server_uid_store env listofuids flag t of
        (Inl e, t') \<Rightarrow> (Inl e, t')
      | (Inr (res, data), t') \<Rightarrow> (Inr (res, data, seen_ids), t'))"

definition SetFlagsAndMove_handler ::
  "env \<Rightarrow> string \<Rightarrow> string \<Rightarrow> bytes list \<Rightarrow> seen \<Rightarrow> trace \<Rightarrow> handler_result" where
  "SetFlagsAndMove_handler env flag folder listofuids seen_ids t =
     (case SetFlags_handler env flag listofuids seen_ids t of
        (Inl e, t') \<Rightarrow> (Inl e, t')
      | (Inr (res, data, seen_ids'), t') \<Rightarrow>
          if res = ''OK'' then Move_handler env folder listofuids seen_ids' t'
          else (Inr (res, data, seen_ids'), t'))"

text \<open>
  \<^verbatim>\<open>try: send_fn(...) except smtplib.SMTPException as e: print(...)\<close>: the send is made,
  a delivery error is swallowed, any other exception goes on.
\<close>

definition except_SMTPException :: "(exn + unit) \<times> trace \<Rightarrow> (exn + unit) \<times> trace" where
  "except_SMTPException r =
     (case r of
        (Inl e, t) \<Rightarrow> if e = SMTPException then (Inr (), t) else (Inl e, t)
      | (Inr u, t) \<Rightarrow> (Inr u, t))"

text \<open>\<^verbatim>\<open>thesender = themail["Reply-To"] or themail["From"] or themail["Sender"]\<close>\<close>

definition WorkEmail_sender :: "email_msg \<Rightarrow> string option" where
  "WorkEmail_sender themail =
     py_or (py_or (getitem themail ''Reply-To'') (getitem themail ''From'')) (getitem themail ''Sender'')"

definition WorkEmail_reply :: "config \<Rightarrow> email_msg \<Rightarrow> message" where
  "WorkEmail_reply config themail =
     \<lparr>msg_subject = getitem themail ''Subject'',
      msg_from_addr = work_reply_from config,
      msg_to_addr = WorkEmail_sender themail,
      msg_body = work_reply_body config themail,
      msg_subject_prefix = Some ''Re:'',
      msg_in_reply_to = getitem themail ''Message-ID'',
      msg_reply_to = Some (work_forward_to config),
      msg_message_id_domain = Some ''away'',
      msg_attach = NoAttachment\<rparr>"

definition WorkEmail_forward :: "config \<Rightarrow> email_msg \<Rightarrow> message" where
  "WorkEmail_forward config themail =
     \<lparr>msg_subject = getitem themail ''Subject'',
      msg_from_addr = work_forward_by config,
      msg_to_addr = Some (work_forward_to config),
      msg_body = work_forward_note_body config themail (WorkEmail_sender themail),
      msg_subject_prefix = Some ''Fwd:'',
      msg_in_reply_to = getitem themail ''Message-ID'',
      msg_reply_to = WorkEmail_sender themail,
      msg_message_id_domain = None,
      msg_attach = AttachMessage themail\<rparr>"

text \<open>
  The body of the loop of \<^verbatim>\<open>WorkEmail\<close> after the deduplication check: both messages
  are built, the forward is sent, then the reply.
\<close>

definition WorkEmail_process :: "env \<Rightarrow> config \<Rightarrow> email_msg \<Rightarrow> seen \<Rightarrow> trace \<Rightarrow> (exn + seen) \<times> trace" where
  "WorkEmail_process env config themail seen_ids t =
     (case build_message env (WorkEmail_reply config themail) of
        Inl e \<Rightarrow> (Inl e, t)
      | Inr reply_msg \<Rightarrow>
          (case build_message env (WorkEmail_forward config themail) of
             Inl e \<Rightarrow> (Inl e, t)
           | Inr forward_msg \<Rightarrow>
               (case except_SMTPException
                       (call_send_fn env (work_forward_by config)
                          (Some (work_forward_to config)) forward_msg t) of
                  (Inl e, t1) \<Rightarrow> (Inl e, t1)
                | (Inr u, t1) \<Rightarrow>
                    (case except_SMTPException
                            (call_send_fn env (work_reply_from config)
                               (WorkEmail_sender themail) reply_msg t1) of
                       (Inl e, t2) \<Rightarrow> (Inl e, t2)
                     | (Inr u, t2) \<Rightarrow> (Inr seen_ids, t2)))))"

text \<open>
  One round of \<^verbatim>\<open>for ret in data\<close> in \<^verbatim>\<open>WorkEmail\<close>: each \<^verbatim>\<open>continue\<close> leaves the
  set and the trace as they are.
\<close>

definition WorkEmail_item :: "env \<Rightarrow> config \<Rightarrow> fetch_item \<Rightarrow> seen \<Rightarrow> trace \<Rightarrow> (exn + seen) \<times> trace" where
  "WorkEmail_item env config ret seen_ids t =
     (case ret of
        Bytes b \<Rightarrow> (Inr seen_ids, t)
      | Tuple xs \<Rightarrow>
          if length xs \<le> 1 then (Inr seen_ids, t)
          else
            (case parse_message env (xs ! 1) of
               Inl e \<Rightarrow> (Inl e, t)
             | Inr themail \<Rightarrow>
                 if headers themail = [] then (Inr seen_ids, t)
                 else
                   (case should_process_message (getitem themail ''Message-ID'') seen_ids of
                      (should_process, seen_ids') \<Rightarrow>
                        if \<not> should_process then (Inr seen_ids', t)
                        else WorkEmail_process env config themail seen_ids' t)))"

fun for_ret_in_data ::
  "(fetch_item \<Rightarrow> seen \<Rightarrow> trace \<Rightarrow> (exn + seen) \<times> trace) \<Rightarrow> data \<Rightarrow> seen \<Rightarrow> trace \<Rightarrow> (exn + seen) \<times> trace" where
  "for_ret_in_data f [] seen_ids t = (Inr seen_ids, t)"
| "for_ret_in_data f (ret # rest) seen_ids t =
     (case f ret seen_ids t of
        (Inl e, t') \<Rightarrow> (Inl e, t')
      | (Inr seen_ids', t') \<Rightarrow> for_ret_in_data f rest seen_ids' t')"

definition WorkEmail_handler :: "env \<Rightarrow> config \<Rightarrow> bytes list \<Rightarrow> seen \<Rightarrow> trace \<Rightarrow> handler_result" where
  "WorkEmail_handler env config listofuids seen_ids t =
     (case server_uid_fetch env listofuids t of
        (Inl e, t1) \<Rightarrow> (Inl e, t1)
      | (Inr (res, data), t1) \<Rightarrow>
          (case for_ret_in_data (WorkEmail_item env config) data seen_ids t1 of
             (Inl e, t2) \<Rightarrow> (Inl e, t2)
           | (Inr seen_ids', t2) \<Rightarrow> (Inr (res, data, seen_ids'), t2)))"


definition Obnoxious_sender :: "email_msg \<Rightarrow> string option" where
  "Obnoxious_sender themail =
     py_or (py_or (getitem themail ''Reply-To'') (getitem themail ''From'')) (getitem themail ''Sender'')"

definition Obnoxious_reply :: "config \<Rightarrow> email_msg \<Rightarrow> message" where
  "Obnoxious_reply config themail =
     \<lparr>msg_subject = getitem themail ''Subject'',
      msg_from_addr = obnoxious_reply_from config,
      msg_to_addr = Obnoxious_sender themail,
      msg_body = obnoxious_reply_body config themail,
      msg_subject_prefix = Some ''Re:'',
      msg_in_reply_to = getitem themail ''Message-ID'',
      msg_reply_to = None,
      msg_message_id_domain = Some ''noteventrashcan'',
      msg_attach = NoAttachment\<rparr>"

definition Obnoxious_process :: "env \<Rightarrow> config \<Rightarrow> email_msg \<Rightarrow> seen \<Rightarrow> trace \<Rightarrow> (exn + seen) \<times> trace" where
  "Obnoxious_process env config themail seen_ids t =
     (case build_message env (Obnoxious_reply config themail) of
        Inl e \<Rightarrow> (Inl e, t)
      | Inr reply_msg \<Rightarrow>
          (case except_SMTPException
                  (call_send_fn env (obnoxious_reply_from config)
                     (Obnoxious_sender themail) reply_msg t) of
             (Inl e, t1) \<Rightarrow> (Inl e, t1)
           | (Inr u, t1) \<Rightarrow> (Inr seen_ids, t1)))"

definition Obnoxious_item :: "env \<Rightarrow> config \<Rightarrow> fetch_item \<Rightarrow> seen \<Rightarrow> trace \<Rightarrow> (exn + seen) \<times> trace" where
  "Obnoxious_item env config ret seen_ids t =
     (case ret of
        Bytes b \<Rightarrow> (Inr seen_ids, t)
      | Tuple xs \<Rightarrow>
          if length xs \<le> 1 then (Inr seen_ids, t)
          else
            (case parse_message env (xs ! 1) of
               Inl e \<Rightarrow> (Inl e, t)
             | Inr themail \<Rightarrow>
                 if headers themail = [] then (Inr seen_ids, t)
                 else
                   (case should_process_message (getitem themail ''Message-ID'') seen_ids of
                      (should_process, seen_ids') \<Rightarrow>
                        if \<not> should_process then (Inr seen_ids', t)
                        else Obnoxious_process env config themail seen_ids' t)))"

definition Obnoxious_handler :: "env \<Rightarrow> config \<Rightarrow> bytes list \<Rightarrow> seen \<Rightarrow> trace \<Rightarrow> handler_result" where
  "Obnoxious_handler env config listofuids seen_ids t =
     (case server_uid_fetch env listofuids t of
        (Inl e, t1) \<Rightarrow> (Inl e, t1)
      | (Inr (res, data), t1) \<Rightarrow>
          (case Delete_handler env listofuids seen_ids t1 of
             (Inl e, t2) \<Rightarrow> (Inl e, t2)
           | (Inr deleted, t2) \<Rightarrow>
               (case Expunge_handler env listofuids seen_ids t2 of
                  (Inl e, t3) \<Rightarrow> (Inl e, t3)
                | (Inr expunged, t3) \<Rightarrow>
                    (case for_ret_in_data (Obnoxious_item env config) data seen_ids t3 of
                       (Inl e, t4) \<Rightarrow> (Inl e, t4)
                     | (Inr seen_ids', t4) \<Rightarrow> (Inr (res, data, seen_ids'), t4)))))"

section \<open>The proxy handler (proxy_utils.py)\<close>

text \<open>
  The options are read from the To address in lower case; each is a substring test.
\<close>

record proxy_options =
  as_txt :: bool
  bleach_html :: bool
  include_images :: bool
  txt_without_links :: bool
  send_using_smtp :: bool
  as_inline :: bool
  send_from :: string
  send_to :: "string option"

definition proxy_parse_options :: "string option \<Rightarrow> config \<Rightarrow> string option \<Rightarrow> proxy_options" where
  "proxy_parse_options to_addr config sender =
     (let to_lower = lower (case py_or to_addr (Some []) of Some s \<Rightarrow> s | None \<Rightarrow> []);
          is_kindle = py_in ''kindle'' to_lower
      in \<lparr>as_txt = py_in ''txt'' to_lower,
          bleach_html = py_in ''bleach'' to_lower,
          include_images = py_in ''images'' to_lower,
          txt_without_links = py_in ''wolinks'' to_lower,
          send_using_smtp = is_kindle,
          as_inline = py_in ''inline'' to_lower,
          send_from = (if is_kindle then kindle_send_from config else proxy_send_from config),
          send_to = (if is_kindle then Some (kindle_send_to config) else sender)\<rparr>)"

text \<open>
  \<^verbatim>\<open>except Exception\<close> catches everything but \<^verbatim>\<open>KeyboardInterrupt\<close> and \<^verbatim>\<open>SystemExit\<close>.
\<close>

definition is_Exception :: "exn \<Rightarrow> bool" where
  "is_Exception e = (e \<noteq> KeyboardInterrupt \<and> e \<noteq> SystemExit)"

definition proxy_build_message_from_url ::
  "env \<Rightarrow> string \<Rightarrow> string option \<Rightarrow> string option \<Rightarrow> proxy_options \<Rightarrow> trace \<Rightarrow> (exn + message) \<times> trace" where
  "proxy_build_message_from_url env url subj ref_mid options t =
     (case fetch_and_transform env t url of
        Inl e \<Rightarrow> (Inl e, t @ [Http_fetch url])
      | Inr (final_subject, text, attached) \<Rightarrow>
          (build_message env
             \<lparr>msg_subject = final_subject,
              msg_from_addr = send_from options,
              msg_to_addr = send_to options,
              msg_body = text,
              msg_subject_prefix = None,
              msg_in_reply_to = ref_mid,
              msg_reply_to = None,
              msg_message_id_domain = Some ''proxy'',
              msg_attach = attached\<rparr>,
           t @ [Http_fetch url]))"

definition proxy_fetch_and_store_url ::
  "env \<Rightarrow> config \<Rightarrow> string \<Rightarrow> string option \<Rightarrow> string option \<Rightarrow> proxy_options \<Rightarrow> trace \<Rightarrow> (exn + unit) \<times> trace" where
  "proxy_fetch_and_store_url env config url subj ref_mid options t =
     (case proxy_build_message_from_url env url subj ref_mid options t of
        (Inl e, t1) \<Rightarrow> if is_Exception e then (Inr (), t1) else (Inl e, t1)
      | (Inr msg, t1) \<Rightarrow>
          (case server_append env (proxy_store_to config) msg t1 of
             (Inl e, t2) \<Rightarrow> if is_Exception e then (Inr (), t2) else (Inl e, t2)
           | (Inr appended, t2) \<Rightarrow>
               if send_using_smtp options then
                 (case call_send_fn env (send_from options) (send_to options) msg t2 of
                    (Inl e, t3) \<Rightarrow> if is_Exception e then (Inr (), t3) else (Inl e, t3)
                  | (Inr u, t3) \<Rightarrow> (Inr (), t3))
               else (Inr (), t2)))"

fun for_u_in_urls ::
  "(string \<Rightarrow> trace \<Rightarrow> (exn + unit) \<times> trace) \<Rightarrow> string list \<Rightarrow> trace \<Rightarrow> (exn + unit) \<times> trace" where
  "for_u_in_urls f [] t = (Inr (), t)"
| "for_u_in_urls f (u # urls) t =
     (case f u t of
        (Inl e, t') \<Rightarrow> (Inl e, t')
      | (Inr done, t') \<Rightarrow> for_u_in_urls f urls t')"

text \<open>\<^verbatim>\<open>thesender = themail["From"] or themail["Sender"]\<close>\<close>

definition proxy_sender :: "email_msg \<Rightarrow> string option" where
  "proxy_sender themail = py_or (getitem themail ''From'') (getitem themail ''Sender'')"

text \<open>
  \<^verbatim>\<open>proxy_extract_urls\<close> creates its HTML converter and then evaluates
  \<^verbatim>\<open>parts = themail.iter_parts() if themail.is_multipart() else [themail]\<close>. The message comes
  from \<^verbatim>\<open>email.parser.Parser().parsestr\<close>, whose default class \<^verbatim>\<open>email.message.Message\<close> has no
  method \<^verbatim>\<open>iter_parts\<close> (it belongs to \<^verbatim>\<open>MIMEPart\<close>), so a multipart message raises
  \<^verbatim>\<open>AttributeError\<close>. For the others the scan of the text is left to the environment.
\<close>

definition proxy_extract_urls :: "env \<Rightarrow> email_msg \<Rightarrow> exn + string list" where
  "proxy_extract_urls env themail =
     (if is_multipart themail then Inl AttributeError else extract_urls env themail)"

text \<open>
  The part of \<^verbatim>\<open>proxy_process_email\<close> after the deduplication check: the options are read
  from the To address, the URLs are extracted, and every URL is fetched and stored in turn.
  Nothing here catches what the extraction raises.
\<close>

definition proxy_process :: "env \<Rightarrow> config \<Rightarrow> email_msg \<Rightarrow> seen \<Rightarrow> trace \<Rightarrow> (exn + seen) \<times> trace" where
  "proxy_process env config themail seen_ids t =
     (case proxy_extract_urls env themail of
        Inl e \<Rightarrow> (Inl e, t)
      | Inr urls \<Rightarrow>
          (case for_u_in_urls
                  (\<lambda>u. proxy_fetch_and_store_url env config u
                     (getitem themail ''Subject'') (getitem themail ''Message-ID'')
                     (proxy_parse_options (getitem themail ''To'') config (proxy_sender themail)))
                  urls t of
             (Inl e, t') \<Rightarrow> (Inl e, t')
           | (Inr done, t') \<Rightarrow> (Inr seen_ids, t')))"

definition proxy_process_email :: "env \<Rightarrow> config \<Rightarrow> fetch_item \<Rightarrow> seen \<Rightarrow> trace \<Rightarrow> (exn + seen) \<times> trace" where
  "proxy_process_email env config ret seen_ids t =
     (case ret of
        Bytes b \<Rightarrow> (Inr seen_ids, t)
      | Tuple xs \<Rightarrow>
          if length xs \<le> 1 then (Inr seen_ids, t)
          else
            (case parse_message env (xs ! 1) of
               Inl e \<Rightarrow> (Inl e, t)
             | Inr themail \<Rightarrow>
                 if headers themail = [] then (Inr seen_ids, t)
                 else
                   (case should_process_message (getitem themail ''Message-ID'') seen_ids of
                      (should_process, seen_ids') \<Rightarrow>
                        if \<not> should_process then (Inr seen_ids', t)
                        else proxy_process env config themail seen_ids' t)))"

definition Proxy_handler :: "env \<Rightarrow> config \<Rightarrow> bytes list \<Rightarrow> seen \<Rightarrow> trace \<Rightarrow> handler_result" where
  "Proxy_handler env config listofuids seen_ids t =
     (case server_uid_fetch env listofuids t of
        (Inl e, t1) \<Rightarrow> (Inl e, t1)
      | (Inr (res, data), t1) \<Rightarrow>
          (case for_ret_in_data (proxy_process_email env config) data seen_ids t1 of
             (Inl e, t2) \<Rightarrow> (Inl e, t2)
           | (Inr seen_ids', t2) \<Rightarrow> (Inr (res, data, seen_ids'), t2)))"

text \<open>
  A configured handler is the closure one of the factories returns; \<open>handle\<close> applies it.
\<close>

datatype handler =
    Expunge
  | Delete
  | Copy string
  | Move string
  | SetFlags string
  | SetFlagsAndMove string string
  | WorkEmail
  | Obnoxious
  | Proxy

fun handle :: "env \<Rightarrow> config \<Rightarrow> handler \<Rightarrow> bytes list \<Rightarrow> seen \<Rightarrow> trace \<Rightarrow> handler_result" where
  "handle env config Expunge = Expunge_handler env"
| "handle env config Delete = Delete_handler env"
| "handle env config (Copy folder) = Copy_handler env folder"
| "handle env config (Move folder) = Move_handler env folder"
| "handle env config (SetFlags flag) = SetFlags_handler env flag"
| "handle env config (SetFlagsAndMove flag folder) = SetFlagsAndMove_handler env flag folder"
| "handle env config WorkEmail = WorkEmail_handler env config"
| "handle env config Obnoxious = Obnoxious_handler env config"
| "handle env config Proxy = Proxy_handler env config"


section \<open>The query loop (handlers.runQueries)\<close>

text \<open>
  An entry of the query list pairs a search string with its handlers. The two inner loops
  of \<^verbatim>\<open>runQueries\<close> carry \<^verbatim>\<open>result\<close>, the working set and the two generations of
  Message-IDs.
\<close>

type_synonym rule = "string \<times> handler list"

fun for_handlef_in_handler_funcs ::
  "env \<Rightarrow> config \<Rightarrow> handler list \<Rightarrow> bytes list \<Rightarrow> status \<Rightarrow> seen \<Rightarrow> trace \<Rightarrow> (exn + status \<times> seen) \<times> trace" where
  "for_handlef_in_handler_funcs env config [] listofuids result seen_ids t = (Inr (result, seen_ids), t)"
| "for_handlef_in_handler_funcs env config (handlef # rest) listofuids result seen_ids t =
     (if result = ''OK'' then
        (case handle env config handlef listofuids seen_ids t of
           (Inl e, t') \<Rightarrow> (Inl e, t')
         | (Inr (result', data, seen_ids'), t') \<Rightarrow>
             for_handlef_in_handler_funcs env config rest listofuids result' seen_ids' t')
      else for_handlef_in_handler_funcs env config rest listofuids result seen_ids t)"

fun for_query_def_in_queries ::
  "env \<Rightarrow> config \<Rightarrow> rule list \<Rightarrow> status \<Rightarrow> seen \<Rightarrow> seen \<Rightarrow> trace \<Rightarrow> (exn + status \<times> seen) \<times> trace" where
  "for_query_def_in_queries env config [] result processed_message_ids previous_message_ids t =
     (Inr (result, processed_message_ids), t)"
| "for_query_def_in_queries env config ((query, handler_funcs) # rest) result
       processed_message_ids previous_message_ids t =
     (case server_uid_search env query t of
        (Inl e, t1) \<Rightarrow> (Inl e, t1)
      | (Inr (result', listofuids), t1) \<Rightarrow>
          if result' = ''OK'' then
            if length listofuids > 0 then
              (case for_handlef_in_handler_funcs env config handler_funcs listofuids result'
                      (processed_message_ids \<union> previous_message_ids) t1 of
                 (Inl e, t2) \<Rightarrow> (Inl e, t2)
               | (Inr (result'', seen_ids), t2) \<Rightarrow>
                   for_query_def_in_queries env config rest result''
                     (seen_ids - previous_message_ids) previous_message_ids t2)
            else for_query_def_in_queries env config rest result'
                   processed_message_ids previous_message_ids t1
          else for_query_def_in_queries env config rest result'
                 processed_message_ids previous_message_ids t1)"

text \<open>
  \<^verbatim>\<open>imap_utils.idle\<close>: the capability check comes first and raises before any command
  is sent; otherwise the IDLE exchange gives a status and the untagged responses.
\<close>

definition idle :: "env \<Rightarrow> trace \<Rightarrow> (exn + status \<times> (string \<times> bytes list) list) \<times> trace" where
  "idle env t =
     (if ''IDLE'' \<notin> set (capabilities env) then (Inl IMAP4_error, t)
      else (imap_idle env t, t @ [Imap_idle]))"

text \<open>
  \<^verbatim>\<open>while result == "OK"\<close> may run forever, so the loop takes fuel and gives None when
  it runs out. \<^verbatim>\<open>response\<close> is the truth value of the Python variable: True at the
  start, afterwards whether the dictionary of untagged responses is non-empty. When it is
  true the generations shift and the queries run; in both cases \<^verbatim>\<open>idle\<close> follows and
  overwrites \<^verbatim>\<open>result\<close>.
\<close>

fun runQueries_while ::
  "nat \<Rightarrow> env \<Rightarrow> config \<Rightarrow> rule list \<Rightarrow> status \<Rightarrow> bool \<Rightarrow> seen \<Rightarrow> seen \<Rightarrow> trace \<Rightarrow> ((exn + unit) \<times> trace) option" where
  "runQueries_while 0 env config queries result response processed_message_ids previous_message_ids t = None"
| "runQueries_while (Suc fuel) env config queries result response processed_message_ids previous_message_ids t =
     (if result \<noteq> ''OK'' then Some (Inr (), t)
      else
        (case (if response
               then (for_query_def_in_queries env config queries result {} processed_message_ids t,
                     processed_message_ids)
               else ((Inr (result, processed_message_ids), t), previous_message_ids)) of
           ((Inl e, t1), previous') \<Rightarrow> Some (Inl e, t1)
         | ((Inr (result1, processed'), t1), previous') \<Rightarrow>
             (case idle env t1 of
                (Inl e, t2) \<Rightarrow> Some (Inl e, t2)
              | (Inr (result2, response2), t2) \<Rightarrow>
                  runQueries_while fuel env config queries result2 (response2 \<noteq> [])
                    processed' previous' t2)))"

definition runQueries :: "nat \<Rightarrow> env \<Rightarrow> config \<Rightarrow> rule list \<Rightarrow> trace \<Rightarrow> ((exn + unit) \<times> trace) option" where
  "runQueries fuel env config queries t = runQueries_while fuel env config queries ''OK'' True {} {} t"

section \<open>The supervisor (imap_utils.run)\<close>

text \<open>
  \<^verbatim>\<open>connect_and_select\<close> connects, logs in and selects the inbox; \<^verbatim>\<open>disconnect\<close> swallows
  every exception.
\<close>

definition connect_and_select :: "env \<Rightarrow> trace \<Rightarrow> (exn + unit) \<times> trace" where
  "connect_and_select env t = (imap_connect env t, t @ [Imap_connect])"

definition disconnect :: "trace \<Rightarrow> trace" where
  "disconnect t = t @ [Imap_disconnect]"

text \<open>The body of \<^verbatim>\<open>try\<close> up to \<^verbatim>\<open>disconnect(connection)\<close>.\<close>

definition run_try :: "nat \<Rightarrow> env \<Rightarrow> config \<Rightarrow> rule list \<Rightarrow> trace \<Rightarrow> ((exn + unit) \<times> trace) option" where
  "run_try fuel env config queries t =
     (case connect_and_select env t of
        (Inl e, t1) \<Rightarrow> Some (Inl e, t1)
      | (Inr connection, t1) \<Rightarrow>
          (case runQueries fuel env config queries t1 of
             None \<Rightarrow> None
           | Some (Inl e, t2) \<Rightarrow> Some (Inl e, t2)
           | Some (Inr returned, t2) \<Rightarrow> Some (Inr (), disconnect t2)))"

text \<open>
  \<^verbatim>\<open>except (socket.error, imaplib.IMAP4.abort)\<close>: \<^verbatim>\<open>smtplib.SMTPException\<close> is an
  \<^verbatim>\<open>OSError\<close> too.
\<close>

definition is_socket_error_or_abort :: "exn \<Rightarrow> bool" where
  "is_socket_error_or_abort e = (e = SocketError \<or> e = SMTPException \<or> e = IMAP4_abort)"

text \<open>
  \<^verbatim>\<open>while True\<close> with the loop variable \<^verbatim>\<open>retry_delay\<close>; the first argument bounds the
  number of rounds, the second is the fuel of each \<^verbatim>\<open>runQueries\<close>. \<^verbatim>\<open>time.sleep\<close> is
  recorded with its argument; the delays are taken to be not negative, as \<^verbatim>\<open>time.sleep\<close>
  requires.
\<close>

fun run_while ::
  "nat \<Rightarrow> nat \<Rightarrow> env \<Rightarrow> config \<Rightarrow> rule list \<Rightarrow> bool \<Rightarrow> int \<Rightarrow> int \<Rightarrow> int \<Rightarrow> trace \<Rightarrow> ((exn + unit) \<times> trace) option" where
  "run_while 0 fuel env config queries once initial_delay max_delay retry_delay t = None"
| "run_while (Suc n) fuel env config queries once initial_delay max_delay retry_delay t =
     (case run_try fuel env config queries t of
        None \<Rightarrow> None
      | Some (Inr returned, t') \<Rightarrow>
          if once then Some (Inr (), t')
          else run_while n fuel env config queries once initial_delay max_delay initial_delay t'
      | Some (Inl e, t') \<Rightarrow>
          if is_socket_error_or_abort e then
            (if once then Some (Inl e, t')
             else run_while n fuel env config queries once initial_delay max_delay
                    (min (retry_delay * 2) max_delay) (t' @ [Time_sleep retry_delay]))
          else if e = KeyboardInterrupt then Some (Inr (), t')
          else if is_Exception e then
            (if once then Some (Inl e, t')
             else run_while n fuel env config queries once initial_delay max_delay
                    (min (retry_delay * 2) max_delay) (t' @ [Time_sleep retry_delay]))
          else Some (Inl e, t'))"

definition run ::
  "nat \<Rightarrow> nat \<Rightarrow> env \<Rightarrow> config \<Rightarrow> rule list \<Rightarrow> bool \<Rightarrow> int \<Rightarrow> int \<Rightarrow> trace \<Rightarrow> ((exn + unit) \<times> trace) option" where
  "run n fuel env config queries once initial_delay max_delay t =
     run_while n fuel env config queries once initial_delay max_delay initial_delay t"

section \<open>Conditions on the collaborators\<close>

text \<open>
  A send delivers or refuses when it returns or raises a delivery error
  (\<^verbatim>\<open>smtplib.SMTPException\<close>). With \<open>delivery_errors_only\<close> message construction never
  raises and every send delivers or refuses. With \<open>never_interrupted\<close> nothing the proxy
  handler calls raises \<^verbatim>\<open>KeyboardInterrupt\<close> or \<^verbatim>\<open>SystemExit\<close>.
\<close>

definition delivers_or_refuses :: "exn + unit \<Rightarrow> bool" where
  "delivers_or_refuses r = (r = Inr () \<or> r = Inl SMTPException)"

definition delivery_errors_only :: "env \<Rightarrow> bool" where
  "delivery_errors_only env \<longleftrightarrow>
     (\<forall>args. build_raises env args = None) \<and>
     (\<forall>t sender recipient msg. delivers_or_refuses (send_fn env t sender recipient msg))"


text \<open>The outgoing sends of a trace, and the first true value of a precedence list.\<close>

fun is_send :: "event \<Rightarrow> bool" where
  "is_send (Smtp_send sender recipient msg) = True"
| "is_send other = False"

definition sends :: "trace \<Rightarrow> trace" where
  "sends t = filter is_send t"

fun first_true :: "string option list \<Rightarrow> string option" where
  "first_true [] = None"
| "first_true [v] = v"
| "first_true (v # w # ws) = (if truthy v then v else first_true (w # ws))"

text \<open>
  The address an event delivers to: the recipient of a send, the To address of a message
  appended to a folder.
\<close>

fun event_recipient :: "event \<Rightarrow> string option option" where
  "event_recipient (Smtp_send sender recipient msg) = Some recipient"
| "event_recipient (Imap_append folder msg) = Some (msg_to_addr msg)"
| "event_recipient other = None"

section \<open>A concrete configuration and concrete collaborators\<close>

text \<open>
  The configuration of the test suite, five parsed messages (one with a Message-ID, spelled
  \<^verbatim>\<open>Message-Id\<close>, and a Reply-To, a multipart one, two without a Message-ID, one without any
  header), and collaborators that
  answer every call with success. The raw bytes of a fetched message are abbreviated by a
  name that the parser maps to the parsed message.
\<close>

definition example_config :: config where
  "example_config =
     \<lparr>work_forward_to = ''work@workplace.edu'',
      work_reply_from = ''answermachine@example.com'',
      work_forward_by = ''forwarder@example.com'',
      work_reply_body = (\<lambda>themail. ''Work emails should be sent to work@workplace.edu''),
      work_forward_note_body = (\<lambda>themail thesender. ''Forwarded message''),
      obnoxious_reply_from = ''devnull@example.com'',
      obnoxious_reply_body = (\<lambda>themail. ''This is an automated response.''),
      proxy_send_from = ''proxy@example.com'',
      proxy_store_to = ''INBOX.Later'',
      kindle_send_from = ''kindle@example.com'',
      kindle_send_to = ''user@kindle.com''\<rparr>"

definition mail_m1 :: email_msg where
  "mail_m1 =
     \<lparr>headers = [(''Message-Id'', ''<m1>''), (''From'', ''boss@workplace.edu''),
                 (''Reply-To'', ''actual-boss@workplace.edu''), (''To'', ''proxy@example.com''),
                 (''Subject'', ''Urgent Task'')],
      is_multipart = False,
      payload = ''Please read http://example.com/a''\<rparr>"

definition mail_multipart :: email_msg where
  "mail_multipart =
     \<lparr>headers = [(''Message-ID'', ''<m2>''), (''From'', ''reader@example.org''),
                 (''To'', ''proxy@example.com''), (''Subject'', ''Reading list''),
                 (''Content-Type'', ''multipart/alternative; boundary=b'')],
      is_multipart = True,
      payload = []\<rparr>"

definition mail_without_id :: email_msg where
  "mail_without_id =
     \<lparr>headers = [(''From'', ''spammer@spam.com''), (''Subject'', ''Offer'')],
      is_multipart = False,
      payload = ''Buy now''\<rparr>"

definition mail_without_id_2 :: email_msg where
  "mail_without_id_2 =
     \<lparr>headers = [(''From'', ''marketing@annoyingcompany.com''), (''Subject'', ''Sale'')],
      is_multipart = False,
      payload = ''Last chance''\<rparr>"

definition mail_without_headers :: email_msg where
  "mail_without_headers = \<lparr>headers = [], is_multipart = False, payload = ''Only a body''\<rparr>"

definition example_parse :: "bytes \<Rightarrow> exn + email_msg" where
  "example_parse raw =
     (if raw = ''m1'' then Inr mail_m1
      else if raw = ''multipart'' then Inr mail_multipart
      else if raw = ''without-id'' then Inr mail_without_id
      else if raw = ''without-id-2'' then Inr mail_without_id_2
      else Inr mail_without_headers)"

definition example_env :: env where
  "example_env =
     \<lparr>parse_message = example_parse,
      build_raises = (\<lambda>args. None),
      extract_urls = (\<lambda>themail. Inr [''http://example.com/a'']),
      fetch_and_transform = (\<lambda>t url. Inr (Some ''Example page'', ''text of the page'', NoAttachment)),
      send_fn = (\<lambda>t sender recipient msg. Inr ()),
      imap_connect = (\<lambda>t. Inr ()),
      capabilities = [''IMAP4REV1'', ''IDLE''],
      imap_search = (\<lambda>t query. Inr (''OK'', [''1''])),
      imap_fetch = (\<lambda>t listofuids. Inr (''OK'', [Tuple [''1 (RFC822'', ''m1''], Bytes '')''])),
      imap_store = (\<lambda>t listofuids flag. Inr (''OK'', [])),
      imap_copy = (\<lambda>t listofuids folder. Inr (''OK'', [])),
      imap_expunge = (\<lambda>t. Inr (''OK'', [])),
      imap_append = (\<lambda>t folder msg. Inr (''OK'', [])),
      imap_idle = (\<lambda>t. Inr (''NO'', []))\<rparr>"





text \<open>A server that answers NO to the search of the newsletter rule and finds a message for every other search.\<close>

definition search_failing_env :: env where
  "search_failing_env =
     example_env\<lparr>imap_search := (\<lambda>t query.
        if query = ''(TO newsletter@)'' then Inr (''NO'', []) else Inr (''OK'', [''7'']))\<rparr>"

text \<open>
  A store without the IDLE capability, where the operator interrupts the second attempt
  to connect; and a store that cannot be reached three times, after which the operator
  interrupts.
\<close>

definition no_idle_env :: env where
  "no_idle_env =
     example_env\<lparr>imap_connect := (\<lambda>t. if Imap_connect \<in> set t then Inl KeyboardInterrupt else Inr ()),
                  capabilities := [''IMAP4REV1'']\<rparr>"


section \<open>Compiled search strings are well-formed\<close>

lemma balanced_from_plain:
  "CHR ''('' \<notin> set v \<Longrightarrow> CHR '')'' \<notin> set v \<Longrightarrow> balanced_from d (v @ rest) = balanced_from d rest"
  by (induction v) auto

lemma scan_quoted:
  "dquote \<notin> set v \<Longrightarrow> fold scan_step v (acc, True, []) = (acc, True, [])"
  by (induction v) auto

lemma wellformed_field:
  assumes "CHR ''('' \<notin> set v" "CHR '')'' \<notin> set v" "dquote \<notin> set v"
  shows "wellformed (''('' @ keyword f @ '' '' @ [dquote] @ v @ [dquote] @ '')'')"
proof -
  have bal: "balanced_from d ((''('' @ keyword f @ '' '' @ [dquote] @ v @ [dquote] @ '')'') @ rest)
              = balanced_from d rest" for d rest
    using assms by (cases f) (simp_all add: dquote_def balanced_from_plain)
  have scan: "fold scan_step (''('' @ keyword f @ '' '' @ [dquote] @ v @ [dquote] @ '')'') (acc, False, [])
              = (acc @ [keyword f], False, [])" for acc
    using assms by (cases f) (simp_all add: dquote_def flush_def scan_quoted [unfolded dquote_def])
  have "set [keyword f] \<subseteq> valid_keywords"
    by (cases f) (simp_all add: valid_keywords_def)
  with bal scan show ?thesis
    unfolding wellformed_def by blast
qed

lemma wellformed_or:
  assumes "wellformed r" "wellformed s"
  shows "wellformed (''(OR '' @ r @ '' '' @ s @ '')'')"
proof -
  from assms obtain kr ks where
    kr: "set kr \<subseteq> valid_keywords" "\<And>acc. fold scan_step r (acc, False, []) = (acc @ kr, False, [])" and
    ks: "set ks \<subseteq> valid_keywords" "\<And>acc. fold scan_step s (acc, False, []) = (acc @ ks, False, [])" and
    br: "\<And>d rest. balanced_from d (r @ rest) = balanced_from d rest" and
    bs: "\<And>d rest. balanced_from d (s @ rest) = balanced_from d rest"
    unfolding wellformed_def by blast
  have bal: "balanced_from d ((''(OR '' @ r @ '' '' @ s @ '')'') @ rest) = balanced_from d rest" for d rest
    by (simp add: br bs)
  have scan: "fold scan_step (''(OR '' @ r @ '' '' @ s @ '')'') (acc, False, [])
              = (acc @ (''OR'' # kr @ ks), False, [])" for acc
    by (simp add: kr ks flush_def dquote_def)
  have "set (''OR'' # kr @ ks) \<subseteq> valid_keywords"
    using kr(1) ks(1) by (simp add: valid_keywords_def)
  with bal scan show ?thesis
    unfolding wellformed_def by blast
qed

lemma wellformed_and:
  assumes "wellformed r" "wellformed s"
  shows "wellformed (''('' @ r @ '' '' @ s @ '')'')"
proof -
  from assms obtain kr ks where
    kr: "set kr \<subseteq> valid_keywords" "\<And>acc. fold scan_step r (acc, False, []) = (acc @ kr, False, [])" and
    ks: "set ks \<subseteq> valid_keywords" "\<And>acc. fold scan_step s (acc, False, []) = (acc @ ks, False, [])" and
    br: "\<And>d rest. balanced_from d (r @ rest) = balanced_from d rest" and
    bs: "\<And>d rest. balanced_from d (s @ rest) = balanced_from d rest"
    unfolding wellformed_def by blast
  have bal: "balanced_from d ((''('' @ r @ '' '' @ s @ '')'') @ rest) = balanced_from d rest" for d rest
    by (simp add: br bs)
  have scan: "fold scan_step (''('' @ r @ '' '' @ s @ '')'') (acc, False, [])
              = (acc @ (kr @ ks), False, [])" for acc
    by (simp add: kr ks flush_def dquote_def)
  have "set (kr @ ks) \<subseteq> valid_keywords"
    using kr(1) ks(1) by simp
  with bal scan show ?thesis
    unfolding wellformed_def by blast
qed


lemma wellformed_join:
  "\<forall>s \<in> set ss. wellformed s \<Longrightarrow>
     (\<forall>d rest. balanced_from d (join '' '' ss @ rest) = balanced_from d rest) \<and>
     (\<exists>kws. set kws \<subseteq> valid_keywords \<and>
        (\<forall>acc. fold scan_step (join '' '' ss) (acc, False, []) = (acc @ kws, False, [])))"
proof (induction "'' ''" ss rule: join.induct)
  case 1
  have "set ([]::string list) \<subseteq> valid_keywords" by simp
  then show ?case by (metis append_Nil append_Nil2 fold_simps(1) join.simps(1))
next
  case (2 x)
  then show ?case by (simp add: wellformed_def)
next
  case (3 x y ys)
  from 3 have wx: "wellformed x" by simp
  from 3 have ih:
    "(\<forall>d rest. balanced_from d (join '' '' (y # ys) @ rest) = balanced_from d rest) \<and>
     (\<exists>kws. set kws \<subseteq> valid_keywords \<and>
        (\<forall>acc. fold scan_step (join '' '' (y # ys)) (acc, False, []) = (acc @ kws, False, [])))"
    by simp
  from wx obtain kx where
    kx: "set kx \<subseteq> valid_keywords" "\<And>acc. fold scan_step x (acc, False, []) = (acc @ kx, False, [])" and
    bx: "\<And>d rest. balanced_from d (x @ rest) = balanced_from d rest"
    unfolding wellformed_def by blast
  from ih obtain kj where
    kj: "set kj \<subseteq> valid_keywords"
        "\<And>acc. fold scan_step (join '' '' (y # ys)) (acc, False, []) = (acc @ kj, False, [])" and
    bj: "\<And>d rest. balanced_from d (join '' '' (y # ys) @ rest) = balanced_from d rest"
    by blast
  have bal: "balanced_from d (join '' '' (x # y # ys) @ rest) = balanced_from d rest" for d rest
    using bj [of d rest] by (simp add: bx)
  have scan: "fold scan_step (join '' '' (x # y # ys)) (acc, False, []) = (acc @ (kx @ kj), False, [])" for acc
    using kj(2) [of "acc @ kx"] by (simp add: kx flush_def dquote_def)
  have "set (kx @ kj) \<subseteq> valid_keywords"
    using kx(1) kj(1) by simp
  with bal scan show ?case by blast
qed

lemma wellformed_not:
  assumes "\<forall>s \<in> set ss. wellformed s"
  shows "wellformed (''(NOT '' @ join '' '' ss @ '')'')"
proof -
  from wellformed_join [OF assms] obtain kj where
    kj: "set kj \<subseteq> valid_keywords"
        "\<And>acc. fold scan_step (join '' '' ss) (acc, False, []) = (acc @ kj, False, [])" and
    bj: "\<And>d rest. balanced_from d (join '' '' ss @ rest) = balanced_from d rest"
    by blast
  have bal: "balanced_from d ((''(NOT '' @ join '' '' ss @ '')'') @ rest) = balanced_from d rest" for d rest
    by (simp add: bj)
  have scan: "fold scan_step (''(NOT '' @ join '' '' ss @ '')'') (acc, False, [])
              = (acc @ (''NOT'' # kj), False, [])" for acc
    by (simp add: kj flush_def dquote_def)
  have "set (''NOT'' # kj) \<subseteq> valid_keywords"
    using kj(1) by (simp add: valid_keywords_def)
  with bal scan show ?thesis
    unfolding wellformed_def by blast
qed

lemma or_step_wellformed:
  "wellformed_result item \<Longrightarrow> wellformed_result result \<Longrightarrow> wellformed_result (or_step item result)"
  by (auto simp: wellformed_result_def or_step_def wellformed_or [simplified] split: sum.splits)

lemma and_step_wellformed:
  "wellformed_result item \<Longrightarrow> wellformed_result result \<Longrightarrow> wellformed_result (and_step item result)"
  by (auto simp: wellformed_result_def and_step_def wellformed_and [simplified] split: sum.splits)

lemma fold_or_wellformed:
  "wellformed_result first \<Longrightarrow> \<forall>r \<in> set rest. wellformed_result r \<Longrightarrow>
   wellformed_result (fold or_step rest first)"
  by (induction rest arbitrary: first) (simp_all add: or_step_wellformed)

lemma fold_and_wellformed:
  "wellformed_result first \<Longrightarrow> \<forall>r \<in> set rest. wellformed_result r \<Longrightarrow>
   wellformed_result (fold and_step rest first)"
  by (induction rest arbitrary: first) (simp_all add: and_step_wellformed)

lemma call_each_wellformed:
  "\<forall>r \<in> set rs. wellformed_result r \<Longrightarrow> call_each rs = Inr ss \<Longrightarrow> \<forall>s \<in> set ss. wellformed s"
  by (induction rs arbitrary: ss rule: call_each.induct)
     (auto simp: wellformed_result_def split: sum.splits)

lemma call_wellformed: "plain_values t \<Longrightarrow> wellformed_result (call t)"
proof (induction t rule: call.induct)
  case (1 f v)
  then show ?case by (simp add: wellformed_result_def wellformed_field [simplified])
next
  case (2 items)
  then have all: "\<forall>r \<in> set (map call items). wellformed_result r" by simp
  show ?case
  proof (cases "map call items")
    case Nil
    then show ?thesis by (simp add: wellformed_result_def)
  next
    case (Cons first rest)
    with all have "wellformed_result first" "\<forall>r \<in> set rest. wellformed_result r" by simp_all
    then show ?thesis using Cons by (simp add: fold_or_wellformed)
  qed
next
  case (3 items)
  then have all: "\<forall>r \<in> set (map call items). wellformed_result r" by simp
  show ?case
  proof (cases "map call items")
    case Nil
    then show ?thesis by (simp add: wellformed_result_def)
  next
    case (Cons first rest)
    with all have "wellformed_result first" "\<forall>r \<in> set rest. wellformed_result r" by simp_all
    then show ?thesis using Cons by (simp add: fold_and_wellformed)
  qed
next
  case (4 items)
  then have all: "\<forall>r \<in> set (map call items). wellformed_result r" by simp
  show ?case
  proof (cases "call_each (map call items)")
    case (Inl e)
    then show ?thesis by (simp add: wellformed_result_def)
  next
    case (Inr ss)
    from call_each_wellformed [OF all Inr] have "wellformed (''(NOT '' @ join '' '' ss @ '')'')"
      by (rule wellformed_not)
    then show ?thesis using Inr by (simp add: wellformed_result_def)
  qed
qed

lemma wellformed_balanced: "wellformed s \<Longrightarrow> balanced s"
  unfolding wellformed_def balanced_def by (metis append_Nil2 balanced_from.simps(1))

lemma wellformed_atoms: "wellformed s \<Longrightarrow> set (atoms s) \<subseteq> valid_keywords"
proof -
  assume "wellformed s"
  then obtain kws where "set kws \<subseteq> valid_keywords"
    "fold scan_step s ([], False, []) = ([] @ kws, False, [])"
    unfolding wellformed_def by blast
  then show ?thesis by (simp add: atoms_def flush_def)
qed

text \<open>
  Claim C9, as amended. For every expression whose field values contain neither a
  parenthesis nor a double quote, whenever \<open>parseQuery\<close> returns a string (it raises
  IndexError when a combinator has no item), that string has balanced parentheses and
  its words outside the quoted values are all among FROM, TO, CC, SUBJECT, OR, NOT.
\<close>

theorem parseQuery_wellformed:
  assumes "\<forall>t \<in> set expr. plain_values t" and "parseQuery expr = Inr s"
  shows "balanced s \<and> set (atoms s) \<subseteq> valid_keywords"
proof -
  have "wellformed_result (parseQuery expr)"
  proof (cases "length expr = 1")
    case True
    then have "expr ! 0 \<in> set expr" by simp
    with assms(1) have "plain_values (expr ! 0)" by blast
    then show ?thesis using True by (simp add: parseQuery_def call_wellformed)
  next
    case False
    from assms(1) have "plain_values (or_combine expr)" by simp
    then have "wellformed_result (call (or_combine expr))" by (rule call_wellformed)
    then show ?thesis using False by (simp add: parseQuery_def)
  qed
  with assms(2) have "wellformed s" by (simp add: wellformed_result_def)
  then show ?thesis by (simp add: wellformed_balanced wellformed_atoms)
qed

text \<open>
  The theorem at the query of the work rule,
  \<^verbatim>\<open>Match(AnyOf(Froms("boss@", "@workplace.edu")))\<close>.
\<close>

theorem parseQuery_wellformed_witness:
  "parseQuery (AnyOf [From [''boss@'', ''@workplace.edu'']]) =
     Inr (''(OR (FROM '' @ [dquote] @ ''boss@'' @ [dquote] @ '') (FROM '' @ [dquote] @
          ''@workplace.edu'' @ [dquote] @ ''))'') \<and>
   balanced (''(OR (FROM '' @ [dquote] @ ''boss@'' @ [dquote] @ '') (FROM '' @ [dquote] @
          ''@workplace.edu'' @ [dquote] @ ''))'') \<and>
   set (atoms (''(OR (FROM '' @ [dquote] @ ''boss@'' @ [dquote] @ '') (FROM '' @ [dquote] @
          ''@workplace.edu'' @ [dquote] @ ''))'')) \<subseteq> valid_keywords"
proof -
  have plain: "\<forall>t \<in> set (AnyOf [From [''boss@'', ''@workplace.edu'']]). plain_values t"
    by (simp add: AnyOf_def From_def dquote_def)
  have compiled: "parseQuery (AnyOf [From [''boss@'', ''@workplace.edu'']]) =
     Inr (''(OR (FROM '' @ [dquote] @ ''boss@'' @ [dquote] @ '') (FROM '' @ [dquote] @
          ''@workplace.edu'' @ [dquote] @ ''))'')"
    by (simp add: parseQuery_def AnyOf_def From_def or_step_def)
  from parseQuery_wellformed [OF plain compiled] compiled show ?thesis by simp
qed

text \<open>
  The claim as stated, for arbitrary values, fails: the value \<^verbatim>\<open>x" (BODY "y\<close> closes the
  quotation early, so that the compiled string \<^verbatim>\<open>(FROM "x" (BODY "y")\<close> opens two
  parentheses and closes one, and carries the word BODY outside its quoted values.
\<close>

theorem parseQuery_arbitrary_value_counterexample:
  "parseQuery (From [''x'' @ [dquote] @ '' (BODY '' @ [dquote] @ ''y'']) =
     Inr (''(FROM '' @ [dquote] @ ''x'' @ [dquote] @ '' (BODY '' @ [dquote] @ ''y'' @ [dquote] @ '')'') \<and>
   \<not> balanced (''(FROM '' @ [dquote] @ ''x'' @ [dquote] @ '' (BODY '' @ [dquote] @ ''y'' @ [dquote] @ '')'') \<and>
   atoms (''(FROM '' @ [dquote] @ ''x'' @ [dquote] @ '' (BODY '' @ [dquote] @ ''y'' @ [dquote] @ '')'') =
     [''FROM'', ''BODY''] \<and>
   ''BODY'' \<notin> valid_keywords"
  by (simp add: parseQuery_def From_def balanced_def atoms_def flush_def dquote_def valid_keywords_def)

section \<open>Header lookup\<close>

lemma lower_names:
  "lower ''Message-ID'' = ''message-id''"
  "lower ''Message-Id'' = ''message-id''"
  "lower ''Reply-To'' = ''reply-to''"
  "lower ''From'' = ''from''"
  "lower ''Sender'' = ''sender''"
  "lower ''Subject'' = ''subject''"
  "lower ''To'' = ''to''"
  by (simp_all add: lower_def lower_char_def)

lemma getitem_no_headers: "headers themail = [] \<Longrightarrow> getitem themail name = None"
  by (simp add: getitem_def)


lemma getitem_mail_m1:
  "getitem mail_m1 ''Message-ID'' = Some ''<m1>''"
  "getitem mail_m1 ''Reply-To'' = Some ''actual-boss@workplace.edu''"
  "getitem mail_m1 ''From'' = Some ''boss@workplace.edu''"
  "getitem mail_m1 ''Sender'' = None"
  "getitem mail_m1 ''Subject'' = Some ''Urgent Task''"
  "getitem mail_m1 ''To'' = Some ''proxy@example.com''"
  by (simp_all add: getitem_def mail_m1_def lower_names)

lemma getitem_mail_without_id:
  "getitem mail_without_id ''Message-ID'' = None"
  "getitem mail_without_id ''Reply-To'' = None"
  "getitem mail_without_id ''From'' = Some ''spammer@spam.com''"
  "getitem mail_without_id ''Subject'' = Some ''Offer''"
  by (simp_all add: getitem_def mail_without_id_def lower_names)

lemma getitem_mail_without_id_2:
  "getitem mail_without_id_2 ''Message-ID'' = None"
  "getitem mail_without_id_2 ''Reply-To'' = None"
  "getitem mail_without_id_2 ''From'' = Some ''marketing@annoyingcompany.com''"
  "getitem mail_without_id_2 ''Subject'' = Some ''Sale''"
  by (simp_all add: getitem_def mail_without_id_2_def lower_names)


lemma headers_examples:
  "headers mail_m1 \<noteq> []" "headers mail_without_id \<noteq> []" "headers mail_without_id_2 \<noteq> []"
  "headers mail_without_headers = []" "headers mail_multipart \<noteq> []"
  by (simp_all add: mail_m1_def mail_without_id_def mail_without_id_2_def mail_without_headers_def
        mail_multipart_def)

lemma example_parse_raw:
  "example_parse ''m1'' = Inr mail_m1"
  "example_parse ''multipart'' = Inr mail_multipart"
  "example_parse ''without-id'' = Inr mail_without_id"
  "example_parse ''without-id-2'' = Inr mail_without_id_2"
  "example_parse ''without-headers'' = Inr mail_without_headers"
  by (simp_all add: example_parse_def)

section \<open>Deduplication in the content handlers\<close>

lemma should_process_message_seen:
  "message_id \<in> seen_ids \<Longrightarrow> should_process_message message_id seen_ids = (False, seen_ids)"
  by (simp add: should_process_message_def)

lemma should_process_message_unseen:
  "message_id \<notin> seen_ids \<Longrightarrow>
   should_process_message message_id seen_ids = (True, insert message_id seen_ids)"
  by (simp add: should_process_message_def)

lemma WorkEmail_item_seen:
  "1 < length xs \<Longrightarrow> parse_message env (xs ! 1) = Inr themail \<Longrightarrow>
   getitem themail ''Message-ID'' \<in> seen_ids \<Longrightarrow>
   WorkEmail_item env config (Tuple xs) seen_ids t = (Inr seen_ids, t)"
  by (simp add: WorkEmail_item_def should_process_message_seen)

lemma Obnoxious_item_seen:
  "1 < length xs \<Longrightarrow> parse_message env (xs ! 1) = Inr themail \<Longrightarrow>
   getitem themail ''Message-ID'' \<in> seen_ids \<Longrightarrow>
   Obnoxious_item env config (Tuple xs) seen_ids t = (Inr seen_ids, t)"
  by (simp add: Obnoxious_item_def should_process_message_seen)

lemma proxy_process_email_seen:
  "1 < length xs \<Longrightarrow> parse_message env (xs ! 1) = Inr themail \<Longrightarrow>
   getitem themail ''Message-ID'' \<in> seen_ids \<Longrightarrow>
   proxy_process_email env config (Tuple xs) seen_ids t = (Inr seen_ids, t)"
  by (simp add: proxy_process_email_def should_process_message_seen)

lemma WorkEmail_item_unseen:
  "1 < length xs \<Longrightarrow> parse_message env (xs ! 1) = Inr themail \<Longrightarrow> headers themail \<noteq> [] \<Longrightarrow>
   getitem themail ''Message-ID'' \<notin> seen_ids \<Longrightarrow>
   WorkEmail_item env config (Tuple xs) seen_ids t =
     WorkEmail_process env config themail (insert (getitem themail ''Message-ID'') seen_ids) t"
  by (simp add: WorkEmail_item_def should_process_message_unseen)

lemma Obnoxious_item_unseen:
  "1 < length xs \<Longrightarrow> parse_message env (xs ! 1) = Inr themail \<Longrightarrow> headers themail \<noteq> [] \<Longrightarrow>
   getitem themail ''Message-ID'' \<notin> seen_ids \<Longrightarrow>
   Obnoxious_item env config (Tuple xs) seen_ids t =
     Obnoxious_process env config themail (insert (getitem themail ''Message-ID'') seen_ids) t"
  by (simp add: Obnoxious_item_def should_process_message_unseen)

lemma proxy_process_email_unseen:
  "1 < length xs \<Longrightarrow> parse_message env (xs ! 1) = Inr themail \<Longrightarrow> headers themail \<noteq> [] \<Longrightarrow>
   getitem themail ''Message-ID'' \<notin> seen_ids \<Longrightarrow>
   proxy_process_email env config (Tuple xs) seen_ids t =
     proxy_process env config themail (insert (getitem themail ''Message-ID'') seen_ids) t"
  by (simp add: proxy_process_email_def should_process_message_unseen)

lemma except_SMTPException_cases:
  "except_SMTPException (r, t) = (if r = Inl SMTPException then (Inr (), t) else (r, t))"
  by (cases r) (auto simp: except_SMTPException_def)

lemma WorkEmail_process_returns:
  "WorkEmail_process env config themail seen_ids t = (Inr s, t') \<Longrightarrow> s = seen_ids"
  by (auto simp: WorkEmail_process_def call_send_fn_def except_SMTPException_cases
           split: sum.splits prod.splits if_splits)

lemma Obnoxious_process_returns:
  "Obnoxious_process env config themail seen_ids t = (Inr s, t') \<Longrightarrow> s = seen_ids"
  by (auto simp: Obnoxious_process_def call_send_fn_def except_SMTPException_cases
           split: sum.splits prod.splits if_splits)

lemma proxy_process_returns:
  "proxy_process env config themail seen_ids t = (Inr s, t') \<Longrightarrow> s = seen_ids"
  by (auto simp: proxy_process_def split: sum.splits prod.splits)


lemma WorkEmail_process_sends:
  assumes "build_raises env (WorkEmail_reply config themail) = None"
    and "build_raises env (WorkEmail_forward config themail) = None"
    and "delivers_or_refuses (send_fn env t (work_forward_by config)
           (Some (work_forward_to config)) (WorkEmail_forward config themail))"
    and "delivers_or_refuses (send_fn env
           (t @ [Smtp_send (work_forward_by config) (Some (work_forward_to config))
                   (WorkEmail_forward config themail)])
           (work_reply_from config) (WorkEmail_sender themail) (WorkEmail_reply config themail))"
  shows "WorkEmail_process env config themail seen_ids t =
     (Inr seen_ids,
      t @ [Smtp_send (work_forward_by config) (Some (work_forward_to config))
             (WorkEmail_forward config themail),
           Smtp_send (work_reply_from config) (WorkEmail_sender themail)
             (WorkEmail_reply config themail)])"
  using assms
  by (auto simp: WorkEmail_process_def build_message_def call_send_fn_def
                 except_SMTPException_cases delivers_or_refuses_def)

lemma Obnoxious_process_sends:
  assumes "build_raises env (Obnoxious_reply config themail) = None"
    and "delivers_or_refuses (send_fn env t (obnoxious_reply_from config)
           (Obnoxious_sender themail) (Obnoxious_reply config themail))"
  shows "Obnoxious_process env config themail seen_ids t =
     (Inr seen_ids,
      t @ [Smtp_send (obnoxious_reply_from config) (Obnoxious_sender themail)
             (Obnoxious_reply config themail)])"
  using assms
  by (auto simp: Obnoxious_process_def build_message_def call_send_fn_def
                 except_SMTPException_cases delivers_or_refuses_def)













lemma WorkEmail_process_then_seen:
  assumes "\<And>s t'. None \<in> s \<Longrightarrow> f s t' = (Inr s, t')" and "None \<in> seen_ids"
  shows "(case WorkEmail_process env config themail seen_ids t of
            (Inl e, t') \<Rightarrow> (Inl e, t')
          | (Inr s, t') \<Rightarrow> f s t') = WorkEmail_process env config themail seen_ids t"
proof (cases "WorkEmail_process env config themail seen_ids t")
  case (Pair r t')
  show ?thesis
  proof (cases r)
    case (Inl e)
    with Pair show ?thesis by simp
  next
    case (Inr s)
    with Pair have "s = seen_ids" by (auto dest: WorkEmail_process_returns)
    with Pair Inr assms show ?thesis by simp
  qed
qed

lemma Obnoxious_process_then_seen:
  assumes "\<And>s t'. None \<in> s \<Longrightarrow> f s t' = (Inr s, t')" and "None \<in> seen_ids"
  shows "(case Obnoxious_process env config themail seen_ids t of
            (Inl e, t') \<Rightarrow> (Inl e, t')
          | (Inr s, t') \<Rightarrow> f s t') = Obnoxious_process env config themail seen_ids t"
proof (cases "Obnoxious_process env config themail seen_ids t")
  case (Pair r t')
  show ?thesis
  proof (cases r)
    case (Inl e)
    with Pair show ?thesis by simp
  next
    case (Inr s)
    with Pair have "s = seen_ids" by (auto dest: Obnoxious_process_returns)
    with Pair Inr assms show ?thesis by simp
  qed
qed

lemma proxy_process_then_seen:
  assumes "\<And>s t'. None \<in> s \<Longrightarrow> f s t' = (Inr s, t')" and "None \<in> seen_ids"
  shows "(case proxy_process env config themail seen_ids t of
            (Inl e, t') \<Rightarrow> (Inl e, t')
          | (Inr s, t') \<Rightarrow> f s t') = proxy_process env config themail seen_ids t"
proof (cases "proxy_process env config themail seen_ids t")
  case (Pair r t')
  show ?thesis
  proof (cases r)
    case (Inl e)
    with Pair show ?thesis by simp
  next
    case (Inr s)
    with Pair have "s = seen_ids" by (auto dest: proxy_process_returns)
    with Pair Inr assms show ?thesis by simp
  qed
qed


lemma for_ret_in_data_single: "for_ret_in_data f [ret] seen_ids t = f ret seen_ids t"
proof (cases "f ret seen_ids t")
  case (Pair r t')
  then show ?thesis by (cases r) simp_all
qed

lemma WorkEmail_item_no_headers:
  "1 < length xs \<Longrightarrow> parse_message env (xs ! 1) = Inr themail \<Longrightarrow> headers themail = [] \<Longrightarrow>
   WorkEmail_item env config (Tuple xs) seen_ids t = (Inr seen_ids, t)"
  by (simp add: WorkEmail_item_def)

lemma Obnoxious_item_no_headers:
  "1 < length xs \<Longrightarrow> parse_message env (xs ! 1) = Inr themail \<Longrightarrow> headers themail = [] \<Longrightarrow>
   Obnoxious_item env config (Tuple xs) seen_ids t = (Inr seen_ids, t)"
  by (simp add: Obnoxious_item_def)

lemma proxy_process_email_no_headers:
  "1 < length xs \<Longrightarrow> parse_message env (xs ! 1) = Inr themail \<Longrightarrow> headers themail = [] \<Longrightarrow>
   proxy_process_email env config (Tuple xs) seen_ids t = (Inr seen_ids, t)"
  by (simp add: proxy_process_email_def)
section \<open>Sends that raise OSError\<close>











text \<open>
  Claim C10, as amended. A fetched message that has at least one header but no Message-ID
  header (in any spelling of upper and lower case) has the identifier None. While None is
  not in the set, each content handler processes such a message with None added to the
  set; once None is in the set, every message without a Message-ID is skipped without a
  send. So a batch of two such messages behaves like the processing of the first alone.
  A message without any header is not among them: \<^verbatim>\<open>if not themail\<close> skips it before the
  deduplication check, so that nothing is sent for it and the set stays as it is, without
  None; a message without a Message-ID that follows it in the batch is processed.
\<close>

theorem missing_Message_ID_is_one_identifier:
  assumes "1 < length xs" and "parse_message env (xs ! 1) = Inr themail"
    and "headers themail \<noteq> []" and "getitem themail ''Message-ID'' = None"
    and "1 < length ys" and "parse_message env (ys ! 1) = Inr later"
    and "getitem later ''Message-ID'' = None"
    and "1 < length zs" and "parse_message env (zs ! 1) = Inr bare"
    and "headers bare = []"
  shows "(None \<notin> seen_ids \<longrightarrow>
            WorkEmail_item env config (Tuple xs) seen_ids t =
              WorkEmail_process env config themail (insert None seen_ids) t \<and>
            Obnoxious_item env config (Tuple xs) seen_ids t =
              Obnoxious_process env config themail (insert None seen_ids) t \<and>
            proxy_process_email env config (Tuple xs) seen_ids t =
              proxy_process env config themail (insert None seen_ids) t) \<and>
         (\<forall>s t'. None \<in> s \<longrightarrow>
            WorkEmail_item env config (Tuple ys) s t' = (Inr s, t') \<and>
            Obnoxious_item env config (Tuple ys) s t' = (Inr s, t') \<and>
            proxy_process_email env config (Tuple ys) s t' = (Inr s, t')) \<and>
         (None \<notin> seen_ids \<longrightarrow>
            for_ret_in_data (WorkEmail_item env config) [Tuple xs, Tuple ys] seen_ids t =
              WorkEmail_process env config themail (insert None seen_ids) t \<and>
            for_ret_in_data (Obnoxious_item env config) [Tuple xs, Tuple ys] seen_ids t =
              Obnoxious_process env config themail (insert None seen_ids) t \<and>
            for_ret_in_data (proxy_process_email env config) [Tuple xs, Tuple ys] seen_ids t =
              proxy_process env config themail (insert None seen_ids) t) \<and>
         (\<forall>s t'.
            WorkEmail_item env config (Tuple zs) s t' = (Inr s, t') \<and>
            Obnoxious_item env config (Tuple zs) s t' = (Inr s, t') \<and>
            proxy_process_email env config (Tuple zs) s t' = (Inr s, t')) \<and>
         (None \<notin> seen_ids \<longrightarrow>
            for_ret_in_data (WorkEmail_item env config) [Tuple zs, Tuple xs] seen_ids t =
              WorkEmail_process env config themail (insert None seen_ids) t \<and>
            for_ret_in_data (Obnoxious_item env config) [Tuple zs, Tuple xs] seen_ids t =
              Obnoxious_process env config themail (insert None seen_ids) t \<and>
            for_ret_in_data (proxy_process_email env config) [Tuple zs, Tuple xs] seen_ids t =
              proxy_process env config themail (insert None seen_ids) t)"
proof -
  have first: "WorkEmail_item env config (Tuple xs) seen_ids t =
              WorkEmail_process env config themail (insert None seen_ids) t \<and>
            Obnoxious_item env config (Tuple xs) seen_ids t =
              Obnoxious_process env config themail (insert None seen_ids) t \<and>
            proxy_process_email env config (Tuple xs) seen_ids t =
              proxy_process env config themail (insert None seen_ids) t"
    if "None \<notin> seen_ids"
    using that assms(1-4)
      WorkEmail_item_unseen [of xs env themail seen_ids config t]
      Obnoxious_item_unseen [of xs env themail seen_ids config t]
      proxy_process_email_unseen [of xs env themail seen_ids config t]
    by simp
  have w: "WorkEmail_item env config (Tuple ys) s t' = (Inr s, t')" if "None \<in> s" for s t'
    using that assms(5-7) WorkEmail_item_seen [of ys env later s config t'] by simp
  have ob: "Obnoxious_item env config (Tuple ys) s t' = (Inr s, t')" if "None \<in> s" for s t'
    using that assms(5-7) Obnoxious_item_seen [of ys env later s config t'] by simp
  have p: "proxy_process_email env config (Tuple ys) s t' = (Inr s, t')" if "None \<in> s" for s t'
    using that assms(5-7) proxy_process_email_seen [of ys env later s config t'] by simp
  have batch: "for_ret_in_data (WorkEmail_item env config) [Tuple xs, Tuple ys] seen_ids t =
              WorkEmail_process env config themail (insert None seen_ids) t \<and>
            for_ret_in_data (Obnoxious_item env config) [Tuple xs, Tuple ys] seen_ids t =
              Obnoxious_process env config themail (insert None seen_ids) t \<and>
            for_ret_in_data (proxy_process_email env config) [Tuple xs, Tuple ys] seen_ids t =
              proxy_process env config themail (insert None seen_ids) t"
    if unseen: "None \<notin> seen_ids"
  proof -
    have in_set: "None \<in> insert None seen_ids" by simp
    have "(case WorkEmail_process env config themail (insert None seen_ids) t of
            (Inl e, t') \<Rightarrow> (Inl e, t')
          | (Inr s, t') \<Rightarrow> for_ret_in_data (WorkEmail_item env config) [Tuple ys] s t') =
          WorkEmail_process env config themail (insert None seen_ids) t"
      by (rule WorkEmail_process_then_seen) (simp_all add: w)
    moreover have "(case Obnoxious_process env config themail (insert None seen_ids) t of
            (Inl e, t') \<Rightarrow> (Inl e, t')
          | (Inr s, t') \<Rightarrow> for_ret_in_data (Obnoxious_item env config) [Tuple ys] s t') =
          Obnoxious_process env config themail (insert None seen_ids) t"
      by (rule Obnoxious_process_then_seen) (simp_all add: ob)
    moreover have "(case proxy_process env config themail (insert None seen_ids) t of
            (Inl e, t') \<Rightarrow> (Inl e, t')
          | (Inr s, t') \<Rightarrow> for_ret_in_data (proxy_process_email env config) [Tuple ys] s t') =
          proxy_process env config themail (insert None seen_ids) t"
      by (rule proxy_process_then_seen) (simp_all add: p)
    ultimately show ?thesis
      using first [OF unseen] by simp
  qed
  have bw: "WorkEmail_item env config (Tuple zs) s t' = (Inr s, t')" for s t'
    using assms(8-10) by (rule WorkEmail_item_no_headers)
  have bob: "Obnoxious_item env config (Tuple zs) s t' = (Inr s, t')" for s t'
    using assms(8-10) by (rule Obnoxious_item_no_headers)
  have bp: "proxy_process_email env config (Tuple zs) s t' = (Inr s, t')" for s t'
    using assms(8-10) by (rule proxy_process_email_no_headers)
  have after: "for_ret_in_data (WorkEmail_item env config) [Tuple zs, Tuple xs] seen_ids t =
              WorkEmail_process env config themail (insert None seen_ids) t \<and>
            for_ret_in_data (Obnoxious_item env config) [Tuple zs, Tuple xs] seen_ids t =
              Obnoxious_process env config themail (insert None seen_ids) t \<and>
            for_ret_in_data (proxy_process_email env config) [Tuple zs, Tuple xs] seen_ids t =
              proxy_process env config themail (insert None seen_ids) t"
    if unseen: "None \<notin> seen_ids"
  proof -
    have "for_ret_in_data (WorkEmail_item env config) [Tuple zs, Tuple xs] seen_ids t =
            for_ret_in_data (WorkEmail_item env config) [Tuple xs] seen_ids t"
      "for_ret_in_data (Obnoxious_item env config) [Tuple zs, Tuple xs] seen_ids t =
            for_ret_in_data (Obnoxious_item env config) [Tuple xs] seen_ids t"
      "for_ret_in_data (proxy_process_email env config) [Tuple zs, Tuple xs] seen_ids t =
            for_ret_in_data (proxy_process_email env config) [Tuple xs] seen_ids t"
      using bw [of seen_ids t] bob [of seen_ids t] bp [of seen_ids t] by simp_all
    then show ?thesis
      unfolding for_ret_in_data_single using first [OF unseen] by simp
  qed
  have bare: "\<forall>s t'.
            WorkEmail_item env config (Tuple zs) s t' = (Inr s, t') \<and>
            Obnoxious_item env config (Tuple zs) s t' = (Inr s, t') \<and>
            proxy_process_email env config (Tuple zs) s t' = (Inr s, t')"
    using bw bob bp by blast
  from first w ob p batch bare after show ?thesis by blast
qed

text \<open>
  The theorem at two messages without a Message-ID, from different senders, and a message
  without any header.
\<close>

theorem missing_Message_ID_is_one_identifier_witness:
  "for_ret_in_data (Obnoxious_item example_env example_config)
       [Tuple [''2 (RFC822'', ''without-id''], Tuple [''3 (RFC822'', ''without-id-2'']] {} [] =
     Obnoxious_process example_env example_config mail_without_id {None} [] \<and>
   WorkEmail_item example_env example_config (Tuple [''3 (RFC822'', ''without-id-2'']) {None} [] =
     (Inr {None}, []) \<and>
   proxy_process_email example_env example_config (Tuple [''5 (RFC822'', ''without-headers'']) {} [] =
     (Inr {}, []) \<and>
   for_ret_in_data (WorkEmail_item example_env example_config)
       [Tuple [''5 (RFC822'', ''without-headers''], Tuple [''2 (RFC822'', ''without-id'']] {} [] =
     WorkEmail_process example_env example_config mail_without_id {None} []"
proof -
  have h1: "1 < length [''2 (RFC822'', ''without-id'']" by simp
  have h2: "parse_message example_env ([''2 (RFC822'', ''without-id''] ! 1) = Inr mail_without_id"
    by (simp add: example_env_def example_parse_raw)
  have h3: "headers mail_without_id \<noteq> []" by (rule headers_examples)
  have h4: "getitem mail_without_id ''Message-ID'' = None"
    by (rule getitem_mail_without_id)
  have h5: "1 < length [''3 (RFC822'', ''without-id-2'']" by simp
  have h6: "parse_message example_env ([''3 (RFC822'', ''without-id-2''] ! 1) = Inr mail_without_id_2"
    by (simp add: example_env_def example_parse_raw)
  have h7: "getitem mail_without_id_2 ''Message-ID'' = None"
    by (rule getitem_mail_without_id_2)
  have h8: "1 < length [''5 (RFC822'', ''without-headers'']" by simp
  have h9: "parse_message example_env ([''5 (RFC822'', ''without-headers''] ! 1) = Inr mail_without_headers"
    by (simp add: example_env_def example_parse_raw)
  have h10: "headers mail_without_headers = []" by (rule headers_examples)
  have a: "None \<notin> ({} :: string option set)" by simp
  have b: "None \<in> {None :: string option}" by simp
  from missing_Message_ID_is_one_identifier [OF h1 h2 h3 h4 h5 h6 h7 h8 h9 h10, where seen_ids = "{}"
         and config = example_config and t = "[]"] a b
  show ?thesis by blast
qed

text \<open>
  The claim as stated fails for a message without any header, which \<^verbatim>\<open>if not themail\<close>
  skips before the deduplication check: it is not processed and None is not added, so a
  later message without a Message-ID is still answered.
\<close>

theorem message_without_headers_counterexample:
  "WorkEmail_item example_env example_config (Tuple [''2 (RFC822'', ''without-headers'']) {} [] =
     (Inr {}, []) \<and>
   for_ret_in_data (Obnoxious_item example_env example_config)
       [Tuple [''2 (RFC822'', ''without-headers''], Tuple [''3 (RFC822'', ''without-id'']] {} [] =
     (Inr {None},
      [Smtp_send ''devnull@example.com'' (Some ''spammer@spam.com'')
         (Obnoxious_reply example_config mail_without_id)])"
proof -
  have parsed: "parse_message example_env = example_parse"
    by (simp add: example_env_def)
  have first: "WorkEmail_item example_env example_config (Tuple [''2 (RFC822'', ''without-headers'']) {} [] =
     (Inr {}, [])"
    by (rule WorkEmail_item_no_headers [where themail = mail_without_headers])
       (simp_all add: parsed example_parse_raw headers_examples)
  have skipped: "Obnoxious_item example_env example_config (Tuple [''2 (RFC822'', ''without-headers'']) {} [] =
     (Inr {}, [])"
    by (rule Obnoxious_item_no_headers [where themail = mail_without_headers])
       (simp_all add: parsed example_parse_raw headers_examples)
  have sender: "Obnoxious_sender mail_without_id = Some ''spammer@spam.com''"
    by (simp add: Obnoxious_sender_def py_or_def truthy_def getitem_mail_without_id)
  have from_addr: "obnoxious_reply_from example_config = ''devnull@example.com''"
    by (simp add: example_config_def)
  have processed: "Obnoxious_process example_env example_config mail_without_id {None} [] =
     (Inr {None},
      [Smtp_send ''devnull@example.com'' (Some ''spammer@spam.com'')
         (Obnoxious_reply example_config mail_without_id)])"
    unfolding Obnoxious_process_def build_message_def call_send_fn_def except_SMTPException_def
      sender from_addr
    by (simp add: example_env_def)
  have "Obnoxious_item example_env example_config (Tuple [''3 (RFC822'', ''without-id'']) {} [] =
     Obnoxious_process example_env example_config mail_without_id
       (insert (getitem mail_without_id ''Message-ID'') {}) []"
    by (rule Obnoxious_item_unseen)
       (simp_all add: parsed example_parse_raw headers_examples)
  then have later: "Obnoxious_item example_env example_config (Tuple [''3 (RFC822'', ''without-id'']) {} [] =
     Obnoxious_process example_env example_config mail_without_id {None} []"
    by (simp add: getitem_mail_without_id)
  from first skipped later processed show ?thesis by simp
qed
section \<open>The sender each handler answers\<close>

lemma proxy_send_to:
  "send_to (proxy_parse_options to_address config sender) =
     (if send_using_smtp (proxy_parse_options to_address config sender)
      then Some (kindle_send_to config) else sender)"
  by (simp add: proxy_parse_options_def Let_def)

lemma proxy_fetch_and_store_url_events:
  "\<exists>new. snd (proxy_fetch_and_store_url env config url subj ref_mid options t) = t @ new \<and>
     (\<forall>ev \<in> set new. \<forall>r. event_recipient ev = Some r \<longrightarrow> r = send_to options)"
  by (auto simp: proxy_fetch_and_store_url_def proxy_build_message_from_url_def
                 build_message_def server_append_def call_send_fn_def
           split: sum.splits prod.splits option.splits)

lemma for_u_in_urls_events:
  assumes "\<And>u t. \<exists>new. snd (f u t) = t @ new \<and> (\<forall>ev \<in> set new. P ev)"
  shows "\<exists>new. snd (for_u_in_urls f urls t) = t @ new \<and> (\<forall>ev \<in> set new. P ev)"
proof (induction urls arbitrary: t)
  case Nil
  show ?case by simp
next
  case (Cons u urls)
  obtain r t1 where step: "f u t = (r, t1)" by (cases "f u t")
  from assms [of u t] step obtain new1 where new1: "t1 = t @ new1" "\<forall>ev \<in> set new1. P ev"
    by auto
  show ?case
  proof (cases r)
    case (Inl e)
    with step new1 show ?thesis by simp
  next
    case (Inr u')
    from Cons [of t1] obtain new2 where
      new2: "snd (for_u_in_urls f urls t1) = t1 @ new2" "\<forall>ev \<in> set new2. P ev"
      by blast
    have "snd (for_u_in_urls f (u # urls) t) = t @ (new1 @ new2)"
      using step Inr new1(1) new2(1) by simp
    moreover have "\<forall>ev \<in> set (new1 @ new2). P ev"
      using new1(2) new2(2) by auto
    ultimately show ?thesis by blast
  qed
qed

lemma proxy_process_events:
  "\<exists>new. snd (proxy_process env config themail seen_ids t) = t @ new \<and>
     (\<forall>ev \<in> set new. \<forall>r. event_recipient ev = Some r \<longrightarrow>
        r = send_to (proxy_parse_options (getitem themail ''To'') config (proxy_sender themail)))"
proof (cases "proxy_extract_urls env themail")
  case (Inl e)
  then show ?thesis by (simp add: proxy_process_def)
next
  case (Inr urls)
  let ?options = "proxy_parse_options (getitem themail ''To'') config (proxy_sender themail)"
  let ?f = "\<lambda>u. proxy_fetch_and_store_url env config u
              (getitem themail ''Subject'') (getitem themail ''Message-ID'') ?options"
  have "\<exists>new. snd (for_u_in_urls ?f urls t) = t @ new \<and>
     (\<forall>ev \<in> set new. \<forall>r. event_recipient ev = Some r \<longrightarrow> r = send_to ?options)"
    by (rule for_u_in_urls_events) (rule proxy_fetch_and_store_url_events)
  then show ?thesis
    using Inr
    by (cases "for_u_in_urls ?f urls t")
       (auto simp: proxy_process_def split: sum.splits)
qed


lemma proxy_trace_m1:
  "snd (proxy_process_email example_env example_config (Tuple [''1 (RFC822'', ''m1'']) {} []) =
     [Http_fetch ''http://example.com/a'',
      Imap_append ''INBOX.Later''
        \<lparr>msg_subject = Some ''Example page'',
         msg_from_addr = ''proxy@example.com'',
         msg_to_addr = Some ''boss@workplace.edu'',
         msg_body = ''text of the page'',
         msg_subject_prefix = None,
         msg_in_reply_to = Some ''<m1>'',
         msg_reply_to = None,
         msg_message_id_domain = Some ''proxy'',
         msg_attach = NoAttachment\<rparr>]"
proof -
  have item: "proxy_process_email example_env example_config (Tuple [''1 (RFC822'', ''m1'']) {} [] =
      proxy_process example_env example_config mail_m1 {Some ''<m1>''} []"
    by (simp add: proxy_process_email_def example_env_def example_parse_def headers_examples
          getitem_mail_m1 should_process_message_def)
  have sender: "proxy_sender mail_m1 = Some ''boss@workplace.edu''"
    by (simp add: proxy_sender_def py_or_def truthy_def getitem_mail_m1)
  have lowered: "lower ''proxy@example.com'' = ''proxy@example.com''"
    by (simp add: lower_def lower_char_def)
  have options: "proxy_parse_options (Some ''proxy@example.com'') example_config (Some ''boss@workplace.edu'') =
     \<lparr>as_txt = False, bleach_html = False, include_images = False, txt_without_links = False,
      send_using_smtp = False, as_inline = False, send_from = ''proxy@example.com'',
      send_to = Some ''boss@workplace.edu''\<rparr>"
    unfolding proxy_parse_options_def py_or_def truthy_def
    by (simp add: lowered example_config_def)
  have urls: "proxy_extract_urls example_env mail_m1 = Inr [''http://example.com/a'']"
    by (simp add: proxy_extract_urls_def example_env_def mail_m1_def)
  show ?thesis
    unfolding item proxy_process_def sender getitem_mail_m1 options urls
    by (simp add: example_env_def example_config_def proxy_fetch_and_store_url_def
          proxy_build_message_from_url_def build_message_def server_append_def)
qed

text \<open>
  Claim C6, as amended. The headers are looked up by name in any spelling of upper and
  lower case. For an unseen item, WorkEmail and Obnoxious answer the first of Reply-To,
  From, Sender that has a value (the last one if none has): when every message can be
  built and every send delivers or raises \<^verbatim>\<open>smtplib.SMTPException\<close>, the reply of either
  handler is sent to that address. The proxy handler never reads Reply-To: every message
  it appends or sends for the item is addressed to the configured Kindle address when the
  To address asks for Kindle delivery, and otherwise to the first of From, Sender that has
  a value.
\<close>

theorem sender_precedence_by_handler:
  assumes "1 < length xs" and "parse_message env (xs ! 1) = Inr themail"
    and "headers themail \<noteq> []" and "getitem themail ''Message-ID'' \<notin> seen_ids"
  shows "(delivery_errors_only env \<longrightarrow>
            snd (WorkEmail_item env config (Tuple xs) seen_ids t) =
              t @ [Smtp_send (work_forward_by config) (Some (work_forward_to config))
                     (WorkEmail_forward config themail),
                   Smtp_send (work_reply_from config)
                     (first_true [getitem themail ''Reply-To'', getitem themail ''From'',
                                  getitem themail ''Sender''])
                     (WorkEmail_reply config themail)] \<and>
            snd (Obnoxious_item env config (Tuple xs) seen_ids t) =
              t @ [Smtp_send (obnoxious_reply_from config)
                     (first_true [getitem themail ''Reply-To'', getitem themail ''From'',
                                  getitem themail ''Sender''])
                     (Obnoxious_reply config themail)]) \<and>
         (\<exists>new. snd (proxy_process_email env config (Tuple xs) seen_ids t) = t @ new \<and>
            (\<forall>ev \<in> set new. \<forall>r. event_recipient ev = Some r \<longrightarrow>
               r = (if send_using_smtp
                         (proxy_parse_options (getitem themail ''To'') config (proxy_sender themail))
                    then Some (kindle_send_to config)
                    else first_true [getitem themail ''From'', getitem themail ''Sender''])))"
proof (intro conjI impI)
  assume d: "delivery_errors_only env"
  have "WorkEmail_item env config (Tuple xs) seen_ids t =
          WorkEmail_process env config themail (insert (getitem themail ''Message-ID'') seen_ids) t"
    using assms by (rule WorkEmail_item_unseen)
  also have "\<dots> =
     (Inr (insert (getitem themail ''Message-ID'') seen_ids),
      t @ [Smtp_send (work_forward_by config) (Some (work_forward_to config))
             (WorkEmail_forward config themail),
           Smtp_send (work_reply_from config) (WorkEmail_sender themail)
             (WorkEmail_reply config themail)])"
    using d by (intro WorkEmail_process_sends) (simp_all add: delivery_errors_only_def)
  finally show "snd (WorkEmail_item env config (Tuple xs) seen_ids t) =
              t @ [Smtp_send (work_forward_by config) (Some (work_forward_to config))
                     (WorkEmail_forward config themail),
                   Smtp_send (work_reply_from config)
                     (first_true [getitem themail ''Reply-To'', getitem themail ''From'',
                                  getitem themail ''Sender''])
                     (WorkEmail_reply config themail)]"
    by (simp add: WorkEmail_sender_def py_or_def)
  have "Obnoxious_item env config (Tuple xs) seen_ids t =
          Obnoxious_process env config themail (insert (getitem themail ''Message-ID'') seen_ids) t"
    using assms by (rule Obnoxious_item_unseen)
  also have "\<dots> =
     (Inr (insert (getitem themail ''Message-ID'') seen_ids),
      t @ [Smtp_send (obnoxious_reply_from config) (Obnoxious_sender themail)
             (Obnoxious_reply config themail)])"
    using d by (intro Obnoxious_process_sends) (simp_all add: delivery_errors_only_def)
  finally show "snd (Obnoxious_item env config (Tuple xs) seen_ids t) =
              t @ [Smtp_send (obnoxious_reply_from config)
                     (first_true [getitem themail ''Reply-To'', getitem themail ''From'',
                                  getitem themail ''Sender''])
                     (Obnoxious_reply config themail)]"
    by (simp add: Obnoxious_sender_def py_or_def)
next
  have "proxy_process_email env config (Tuple xs) seen_ids t =
          proxy_process env config themail (insert (getitem themail ''Message-ID'') seen_ids) t"
    using assms by (rule proxy_process_email_unseen)
  moreover have "send_to (proxy_parse_options (getitem themail ''To'') config (proxy_sender themail)) =
      (if send_using_smtp
            (proxy_parse_options (getitem themail ''To'') config (proxy_sender themail))
       then Some (kindle_send_to config)
       else first_true [getitem themail ''From'', getitem themail ''Sender''])"
    by (simp add: proxy_send_to proxy_sender_def py_or_def)
  ultimately show "\<exists>new. snd (proxy_process_email env config (Tuple xs) seen_ids t) = t @ new \<and>
            (\<forall>ev \<in> set new. \<forall>r. event_recipient ev = Some r \<longrightarrow>
               r = (if send_using_smtp
                         (proxy_parse_options (getitem themail ''To'') config (proxy_sender themail))
                    then Some (kindle_send_to config)
                    else first_true [getitem themail ''From'', getitem themail ''Sender'']))"
    using proxy_process_events [of env config themail
            "insert (getitem themail ''Message-ID'') seen_ids" t]
    by simp
qed

text \<open>
  The theorem at the message \<^verbatim>\<open><m1>\<close>, which has both a Reply-To and a From header.
\<close>

theorem sender_precedence_by_handler_witness:
  "snd (WorkEmail_item example_env example_config (Tuple [''1 (RFC822'', ''m1'']) {} []) =
     [Smtp_send ''forwarder@example.com'' (Some ''work@workplace.edu'')
        (WorkEmail_forward example_config mail_m1),
      Smtp_send ''answermachine@example.com'' (Some ''actual-boss@workplace.edu'')
        (WorkEmail_reply example_config mail_m1)] \<and>
   snd (Obnoxious_item example_env example_config (Tuple [''1 (RFC822'', ''m1'']) {} []) =
     [Smtp_send ''devnull@example.com'' (Some ''actual-boss@workplace.edu'')
        (Obnoxious_reply example_config mail_m1)] \<and>
   event_recipient
     (snd (proxy_process_email example_env example_config (Tuple [''1 (RFC822'', ''m1'']) {} []) ! 1) =
     Some (Some ''boss@workplace.edu'')"
proof -
  have h1: "1 < length [''1 (RFC822'', ''m1'']" by simp
  have h2: "parse_message example_env ([''1 (RFC822'', ''m1''] ! 1) = Inr mail_m1"
    by (simp add: example_env_def example_parse_raw)
  have h3: "headers mail_m1 \<noteq> []" by (rule headers_examples)
  have h4: "getitem mail_m1 ''Message-ID'' \<notin> {}" by simp
  have d: "delivery_errors_only example_env"
    by (simp add: delivery_errors_only_def delivers_or_refuses_def example_env_def)
  have precedence: "first_true [getitem mail_m1 ''Reply-To'', getitem mail_m1 ''From'',
                      getitem mail_m1 ''Sender''] = Some ''actual-boss@workplace.edu''"
    by (simp add: truthy_def getitem_mail_m1)
  have addrs: "work_forward_by example_config = ''forwarder@example.com''"
    "work_forward_to example_config = ''work@workplace.edu''"
    "work_reply_from example_config = ''answermachine@example.com''"
    "obnoxious_reply_from example_config = ''devnull@example.com''"
    by (simp_all add: example_config_def)
  note inst = sender_precedence_by_handler [OF h1 h2 h3 h4, where config = example_config and t = "[]"]
  from inst d have
    "snd (WorkEmail_item example_env example_config (Tuple [''1 (RFC822'', ''m1'']) {} []) =
       [] @ [Smtp_send (work_forward_by example_config) (Some (work_forward_to example_config))
               (WorkEmail_forward example_config mail_m1),
             Smtp_send (work_reply_from example_config)
               (first_true [getitem mail_m1 ''Reply-To'', getitem mail_m1 ''From'',
                            getitem mail_m1 ''Sender''])
               (WorkEmail_reply example_config mail_m1)]"
    by blast
  then have work: "snd (WorkEmail_item example_env example_config (Tuple [''1 (RFC822'', ''m1'']) {} []) =
     [Smtp_send ''forwarder@example.com'' (Some ''work@workplace.edu'')
        (WorkEmail_forward example_config mail_m1),
      Smtp_send ''answermachine@example.com'' (Some ''actual-boss@workplace.edu'')
        (WorkEmail_reply example_config mail_m1)]"
    unfolding precedence addrs by simp
  from inst d have
    "snd (Obnoxious_item example_env example_config (Tuple [''1 (RFC822'', ''m1'']) {} []) =
       [] @ [Smtp_send (obnoxious_reply_from example_config)
               (first_true [getitem mail_m1 ''Reply-To'', getitem mail_m1 ''From'',
                            getitem mail_m1 ''Sender''])
               (Obnoxious_reply example_config mail_m1)]"
    by blast
  then have obnoxious: "snd (Obnoxious_item example_env example_config (Tuple [''1 (RFC822'', ''m1'']) {} []) =
     [Smtp_send ''devnull@example.com'' (Some ''actual-boss@workplace.edu'')
        (Obnoxious_reply example_config mail_m1)]"
    unfolding precedence addrs by simp
  from inst obtain new where
    new: "snd (proxy_process_email example_env example_config (Tuple [''1 (RFC822'', ''m1'']) {} []) = [] @ new"
    and recipients: "\<forall>ev \<in> set new. \<forall>r. event_recipient ev = Some r \<longrightarrow>
       r = (if send_using_smtp
                 (proxy_parse_options (getitem mail_m1 ''To'') example_config (proxy_sender mail_m1))
            then Some (kindle_send_to example_config)
            else first_true [getitem mail_m1 ''From'', getitem mail_m1 ''Sender''])"
    by blast
  have lowered: "lower ''proxy@example.com'' = ''proxy@example.com''"
    by (simp add: lower_def lower_char_def)
  have not_kindle: "\<not> send_using_smtp
       (proxy_parse_options (getitem mail_m1 ''To'') example_config (proxy_sender mail_m1))"
    unfolding proxy_parse_options_def py_or_def truthy_def
    by (simp add: getitem_mail_m1 lowered)
  have from_first: "first_true [getitem mail_m1 ''From'', getitem mail_m1 ''Sender''] =
      Some ''boss@workplace.edu''"
    by (simp add: truthy_def getitem_mail_m1)
  from new proxy_trace_m1 have trace: "new =
     [Http_fetch ''http://example.com/a'',
      Imap_append ''INBOX.Later''
        \<lparr>msg_subject = Some ''Example page'',
         msg_from_addr = ''proxy@example.com'',
         msg_to_addr = Some ''boss@workplace.edu'',
         msg_body = ''text of the page'',
         msg_subject_prefix = None,
         msg_in_reply_to = Some ''<m1>'',
         msg_reply_to = None,
         msg_message_id_domain = Some ''proxy'',
         msg_attach = NoAttachment\<rparr>]"
    by simp
  then have "new ! 1 \<in> set new" by simp
  moreover from trace have "event_recipient (new ! 1) = Some (msg_to_addr
        \<lparr>msg_subject = Some ''Example page'',
         msg_from_addr = ''proxy@example.com'',
         msg_to_addr = Some ''boss@workplace.edu'',
         msg_body = ''text of the page'',
         msg_subject_prefix = None,
         msg_in_reply_to = Some ''<m1>'',
         msg_reply_to = None,
         msg_message_id_domain = Some ''proxy'',
         msg_attach = NoAttachment\<rparr>)"
    by simp
  ultimately have "msg_to_addr
        \<lparr>msg_subject = Some ''Example page'',
         msg_from_addr = ''proxy@example.com'',
         msg_to_addr = Some ''boss@workplace.edu'',
         msg_body = ''text of the page'',
         msg_subject_prefix = None,
         msg_in_reply_to = Some ''<m1>'',
         msg_reply_to = None,
         msg_message_id_domain = Some ''proxy'',
         msg_attach = NoAttachment\<rparr> = first_true [getitem mail_m1 ''From'', getitem mail_m1 ''Sender'']"
    using recipients not_kindle by auto
  with trace new have proxy: "event_recipient
     (snd (proxy_process_email example_env example_config (Tuple [''1 (RFC822'', ''m1'']) {} []) ! 1) =
     Some (Some ''boss@workplace.edu'')"
    by (simp add: from_first)
  from work obnoxious proxy show ?thesis by blast
qed

text \<open>
  The claim as stated fails for the proxy handler: for the message \<^verbatim>\<open><m1>\<close>, whose
  Reply-To is \<^verbatim>\<open>actual-boss@workplace.edu\<close>, the message it stores is addressed to the
  From address \<^verbatim>\<open>boss@workplace.edu\<close>.
\<close>

theorem proxy_ignores_Reply_To_counterexample:
  "getitem mail_m1 ''Reply-To'' = Some ''actual-boss@workplace.edu'' \<and>
   map event_recipient
     (snd (proxy_process_email example_env example_config (Tuple [''1 (RFC822'', ''m1'']) {} [])) =
     [None, Some (Some ''boss@workplace.edu'')]"
  by (simp add: proxy_trace_m1) (simp add: getitem_mail_m1)


section \<open>The trace of the Obnoxious handler\<close>

lemma Obnoxious_process_extends:
  "\<exists>new. snd (Obnoxious_process env config themail seen_ids t) = t @ new"
  by (auto simp: Obnoxious_process_def build_message_def call_send_fn_def
                 except_SMTPException_cases
           split: sum.splits prod.splits option.splits if_splits)

lemma Obnoxious_item_extends:
  "\<exists>new. snd (Obnoxious_item env config ret seen_ids t) = t @ new"
proof -
  have "Obnoxious_item env config ret seen_ids t = (Inr seen_ids, t) \<or>
        (\<exists>e. Obnoxious_item env config ret seen_ids t = (Inl e, t)) \<or>
        (\<exists>themail s. Obnoxious_item env config ret seen_ids t =
           Obnoxious_process env config themail s t)"
    by (auto simp: Obnoxious_item_def should_process_message_def
             split: fetch_item.splits sum.splits)
  then show ?thesis
    using Obnoxious_process_extends by (metis append_Nil2 snd_conv)
qed

lemma for_ret_in_data_extends:
  assumes "\<And>ret s t. \<exists>new. snd (f ret s t) = t @ new"
  shows "\<exists>new. snd (for_ret_in_data f data seen_ids t) = t @ new"
proof (induction data arbitrary: seen_ids t)
  case Nil
  show ?case by simp
next
  case (Cons ret data)
  obtain r t1 where step: "f ret seen_ids t = (r, t1)" by (cases "f ret seen_ids t")
  from assms [of ret seen_ids t] step obtain new1 where new1: "t1 = t @ new1" by auto
  show ?case
  proof (cases r)
    case (Inl e)
    with step new1 show ?thesis by simp
  next
    case (Inr s)
    from Cons [of s t1] obtain new2 where "snd (for_ret_in_data f data s t1) = t1 @ new2"
      by blast
    with step Inr new1 have "snd (for_ret_in_data f (ret # data) seen_ids t) = t @ (new1 @ new2)"
      by simp
    then show ?thesis by blast
  qed
qed

lemma Obnoxious_handler_trace:
  "\<exists>k rest.
     snd (Obnoxious_handler env config listofuids seen_ids t) =
       t @ take k [Imap_fetch listofuids, Imap_store listofuids deleted_flag, Imap_expunge] @ rest \<and>
     (rest \<noteq> [] \<longrightarrow> k = 3) \<and>
     ((\<exists>fetched. imap_fetch env t listofuids = Inr fetched) \<and>
      (\<exists>stored. imap_store env (t @ [Imap_fetch listofuids]) listofuids deleted_flag = Inr stored) \<and>
      (\<exists>expunged. imap_expunge env
          (t @ [Imap_fetch listofuids, Imap_store listofuids deleted_flag]) = Inr expunged)
      \<longrightarrow> k = 3)"
proof (cases "imap_fetch env t listofuids")
  case (Inl e)
  then have "snd (Obnoxious_handler env config listofuids seen_ids t) =
       t @ take 1 [Imap_fetch listofuids, Imap_store listofuids deleted_flag, Imap_expunge] @ []"
    by (simp add: Obnoxious_handler_def server_uid_fetch_def)
  with Inl show ?thesis by (intro exI [of _ 1] exI [of _ "[]"]) simp
next
  case fetched: (Inr rf)
  obtain res data where rf: "rf = (res, data)" by (cases rf)
  show ?thesis
  proof (cases "imap_store env (t @ [Imap_fetch listofuids]) listofuids deleted_flag")
    case (Inl e)
    with fetched rf have "snd (Obnoxious_handler env config listofuids seen_ids t) =
       t @ take 2 [Imap_fetch listofuids, Imap_store listofuids deleted_flag, Imap_expunge] @ []"
      by (simp add: Obnoxious_handler_def server_uid_fetch_def Delete_handler_def
            server_uid_store_def)
    with Inl show ?thesis by (intro exI [of _ 2] exI [of _ "[]"]) simp
  next
    case stored: (Inr rs)
    obtain res2 data2 where rs: "rs = (res2, data2)" by (cases rs)
    let ?t3 = "t @ [Imap_fetch listofuids, Imap_store listofuids deleted_flag, Imap_expunge]"
    show ?thesis
    proof (cases "imap_expunge env (t @ [Imap_fetch listofuids, Imap_store listofuids deleted_flag])")
      case (Inl e)
      with fetched rf stored rs have "snd (Obnoxious_handler env config listofuids seen_ids t) =
         t @ take 3 [Imap_fetch listofuids, Imap_store listofuids deleted_flag, Imap_expunge] @ []"
        by (simp add: Obnoxious_handler_def server_uid_fetch_def Delete_handler_def
              server_uid_store_def Expunge_handler_def server_expunge_def)
      then show ?thesis by (intro exI [of _ 3] exI [of _ "[]"]) simp
    next
      case expunged: (Inr re)
      obtain res3 data3 where re: "re = (res3, data3)" by (cases re)
      have "\<exists>new. snd (for_ret_in_data (Obnoxious_item env config) data seen_ids ?t3) = ?t3 @ new"
        by (rule for_ret_in_data_extends) (rule Obnoxious_item_extends)
      then obtain new where
        new: "snd (for_ret_in_data (Obnoxious_item env config) data seen_ids ?t3) = ?t3 @ new"
        by blast
      have "snd (Obnoxious_handler env config listofuids seen_ids t) =
              snd (for_ret_in_data (Obnoxious_item env config) data seen_ids ?t3)"
        using fetched rf stored rs expunged re
        by (simp add: Obnoxious_handler_def server_uid_fetch_def Delete_handler_def
              server_uid_store_def Expunge_handler_def server_expunge_def
            split: sum.splits prod.splits)
      with new have "snd (Obnoxious_handler env config listofuids seen_ids t) =
         t @ take 3 [Imap_fetch listofuids, Imap_store listofuids deleted_flag, Imap_expunge] @ new"
        by simp
      then show ?thesis by (intro exI [of _ 3] exI [of _ new]) simp
    qed
  qed
qed


lemma sends_take_imap:
  "sends (take k [Imap_fetch listofuids, Imap_store listofuids flag, Imap_expunge]) = []"
proof -
  have "set (take k [Imap_fetch listofuids, Imap_store listofuids flag, Imap_expunge]) \<subseteq>
          {Imap_fetch listofuids, Imap_store listofuids flag, Imap_expunge}"
    using set_take_subset [of k "[Imap_fetch listofuids, Imap_store listofuids flag, Imap_expunge]"]
    by simp
  then have "\<forall>ev \<in> set (take k [Imap_fetch listofuids, Imap_store listofuids flag, Imap_expunge]).
               \<not> is_send ev"
    by auto
  then show ?thesis
    unfolding sends_def by (simp only: filter_False)
qed

text \<open>
  Claim C5. Every invocation of the Obnoxious handler, whatever the set of seen
  identifiers, the fetched data and the behaviour of message construction and of the mail
  server, extends the trace by calls of which the first three hold no send; if it sends
  anything at all, or if the fetch, the store of the Deleted flag and the expunge return,
  the first three calls are the fetch, the store of the Deleted flag on all the matched
  UIDs and the expunge. So no send precedes the delete and the expunge.
\<close>

theorem Obnoxious_deletes_before_sending:
  "\<exists>new.
     snd (Obnoxious_handler env config listofuids seen_ids t) = t @ new \<and>
     sends (take 3 new) = [] \<and>
     (sends new \<noteq> [] \<longrightarrow>
        take 3 new = [Imap_fetch listofuids, Imap_store listofuids deleted_flag, Imap_expunge]) \<and>
     ((\<exists>fetched. imap_fetch env t listofuids = Inr fetched) \<and>
      (\<exists>stored. imap_store env (t @ [Imap_fetch listofuids]) listofuids deleted_flag = Inr stored) \<and>
      (\<exists>expunged. imap_expunge env
          (t @ [Imap_fetch listofuids, Imap_store listofuids deleted_flag]) = Inr expunged)
      \<longrightarrow> take 3 new = [Imap_fetch listofuids, Imap_store listofuids deleted_flag, Imap_expunge])"
proof -
  let ?L = "[Imap_fetch listofuids, Imap_store listofuids deleted_flag, Imap_expunge]"
  from Obnoxious_handler_trace [of env config listofuids seen_ids t] obtain k rest where
    trace: "snd (Obnoxious_handler env config listofuids seen_ids t) = t @ take k ?L @ rest"
    and complete: "rest \<noteq> [] \<longrightarrow> k = 3"
    and returned: "(\<exists>fetched. imap_fetch env t listofuids = Inr fetched) \<and>
      (\<exists>stored. imap_store env (t @ [Imap_fetch listofuids]) listofuids deleted_flag = Inr stored) \<and>
      (\<exists>expunged. imap_expunge env
          (t @ [Imap_fetch listofuids, Imap_store listofuids deleted_flag]) = Inr expunged)
      \<longrightarrow> k = 3"
    by blast
  have prefix: "take 3 (take k ?L @ rest) = take (min 3 k) ?L \<or> take 3 (take k ?L @ rest) = ?L"
  proof (cases "rest = []")
    case True
    then show ?thesis by (simp add: min.commute)
  next
    case False
    with complete have "k = 3" by simp
    then show ?thesis by simp
  qed
  have no_send: "sends (take 3 (take k ?L @ rest)) = []"
    using prefix sends_take_imap [of "min 3 k" listofuids deleted_flag]
      sends_take_imap [of 3 listofuids deleted_flag]
    by auto
  have with_send: "take 3 (take k ?L @ rest) = ?L" if "sends (take k ?L @ rest) \<noteq> []"
  proof -
    have "rest \<noteq> []"
    proof
      assume "rest = []"
      with that sends_take_imap [of k listofuids deleted_flag] show False by simp
    qed
    with complete have "k = 3" by simp
    then show ?thesis by simp
  qed
  have with_returns: "take 3 (take k ?L @ rest) = ?L" if "k = 3"
    using that by simp
  from trace no_send with_send with_returns returned show ?thesis
    by (intro exI [of _ "take k ?L @ rest"]) blast
qed

text \<open>
  The theorem at a server that answers every call: the handler begins with fetch, delete
  and expunge.
\<close>

theorem Obnoxious_deletes_before_sending_witness:
  "take 3 (snd (Obnoxious_handler example_env example_config [''1''] {} [])) =
     [Imap_fetch [''1''], Imap_store [''1''] deleted_flag, Imap_expunge]"
proof -
  have fetched: "\<exists>fetched. imap_fetch example_env [] [''1''] = Inr fetched"
    by (simp add: example_env_def)
  have stored: "\<exists>stored. imap_store example_env ([] @ [Imap_fetch [''1'']]) [''1''] deleted_flag = Inr stored"
    by (simp add: example_env_def)
  have expunged: "\<exists>expunged. imap_expunge example_env
          ([] @ [Imap_fetch [''1''], Imap_store [''1''] deleted_flag]) = Inr expunged"
    by (simp add: example_env_def)
  from Obnoxious_deletes_before_sending [of example_env example_config "[''1'']" "{}" "[]"]
  obtain new where
    "snd (Obnoxious_handler example_env example_config [''1''] {} []) = [] @ new"
    "(\<exists>fetched. imap_fetch example_env [] [''1''] = Inr fetched) \<and>
      (\<exists>stored. imap_store example_env ([] @ [Imap_fetch [''1'']]) [''1''] deleted_flag = Inr stored) \<and>
      (\<exists>expunged. imap_expunge example_env
          ([] @ [Imap_fetch [''1''], Imap_store [''1''] deleted_flag]) = Inr expunged)
      \<longrightarrow> take 3 new = [Imap_fetch [''1''], Imap_store [''1''] deleted_flag, Imap_expunge]"
    by blast
  with fetched stored expunged show ?thesis by simp
qed

section \<open>The query loop\<close>

lemma search_not_OK:
  "imap_search env t query = Inr (result', listofuids) \<Longrightarrow> result' \<noteq> ''OK'' \<Longrightarrow>
   for_query_def_in_queries env config ((query, handler_funcs) # rest) result cur prev t =
     for_query_def_in_queries env config rest result' cur prev (t @ [Imap_search query])"
  by (simp add: server_uid_search_def)

lemma search_raises:
  "imap_search env t query = Inl e \<Longrightarrow>
   for_query_def_in_queries env config ((query, handler_funcs) # rest) result cur prev t =
     (Inl e, t @ [Imap_search query])"
  by (simp add: server_uid_search_def)

lemma search_OK_nonempty:
  "imap_search env t query = Inr (''OK'', listofuids) \<Longrightarrow> listofuids \<noteq> [] \<Longrightarrow>
   for_query_def_in_queries env config ((query, handler_funcs) # rest) result cur prev t =
     (case for_handlef_in_handler_funcs env config handler_funcs listofuids ''OK''
             (cur \<union> prev) (t @ [Imap_search query]) of
        (Inl e, t2) \<Rightarrow> (Inl e, t2)
      | (Inr (result2, seen_ids), t2) \<Rightarrow>
          for_query_def_in_queries env config rest result2 (seen_ids - prev) prev t2)"
  by (simp add: server_uid_search_def)

lemma search_OK_empty:
  "imap_search env t query = Inr (''OK'', []) \<Longrightarrow>
   for_query_def_in_queries env config ((query, handler_funcs) # rest) result cur prev t =
     for_query_def_in_queries env config rest ''OK'' cur prev (t @ [Imap_search query])"
  by (simp add: server_uid_search_def)

lemma handlers_after_not_OK:
  "result \<noteq> ''OK'' \<Longrightarrow>
   for_handlef_in_handler_funcs env config handler_funcs listofuids result seen_ids t =
     (Inr (result, seen_ids), t)"
  by (induction handler_funcs) simp_all

lemma handler_not_OK:
  "handle env config handlef listofuids seen_ids t = (Inr (result, data, seen_ids'), t') \<Longrightarrow>
   result \<noteq> ''OK'' \<Longrightarrow>
   for_handlef_in_handler_funcs env config (handlef # rest) listofuids ''OK'' seen_ids t =
     (Inr (result, seen_ids'), t')"
  by (simp add: handlers_after_not_OK)

lemma for_ret_in_data_mono:
  assumes "\<And>ret s t s' t'. f ret s t = (Inr s', t') \<Longrightarrow> s \<subseteq> s'"
    and "for_ret_in_data f data seen_ids t = (Inr seen_ids', t')"
  shows "seen_ids \<subseteq> seen_ids'"
  using assms(2)
proof (induction data arbitrary: seen_ids t)
  case Nil
  then show ?case by simp
next
  case (Cons ret data)
  obtain r t1 where step: "f ret seen_ids t = (r, t1)" by (cases "f ret seen_ids t")
  with Cons.prems obtain s where r: "r = Inr s"
    by (cases r) auto
  with step have "seen_ids \<subseteq> s" by (auto dest: assms(1))
  moreover from Cons.prems step r have "for_ret_in_data f data s t1 = (Inr seen_ids', t')"
    by simp
  then have "s \<subseteq> seen_ids'" by (rule Cons.IH)
  ultimately show ?case by blast
qed

lemma WorkEmail_item_mono:
  "WorkEmail_item env config ret s t = (Inr s', t') \<Longrightarrow> s \<subseteq> s'"
  by (auto simp: WorkEmail_item_def should_process_message_def
           split: fetch_item.splits sum.splits if_splits
           dest!: WorkEmail_process_returns)

lemma Obnoxious_item_mono:
  "Obnoxious_item env config ret s t = (Inr s', t') \<Longrightarrow> s \<subseteq> s'"
  by (auto simp: Obnoxious_item_def should_process_message_def
           split: fetch_item.splits sum.splits if_splits
           dest!: Obnoxious_process_returns)

lemma proxy_process_email_mono:
  "proxy_process_email env config ret s t = (Inr s', t') \<Longrightarrow> s \<subseteq> s'"
  by (auto simp: proxy_process_email_def should_process_message_def
           split: fetch_item.splits sum.splits if_splits
           dest!: proxy_process_returns)

lemma imap_handlers_keep_seen:
  "Expunge_handler env listofuids s t = (Inr (result, data, s'), t') \<Longrightarrow> s' = s"
  "Delete_handler env listofuids s t = (Inr (result, data, s'), t') \<Longrightarrow> s' = s"
  "Copy_handler env folder listofuids s t = (Inr (result, data, s'), t') \<Longrightarrow> s' = s"
  "SetFlags_handler env flag listofuids s t = (Inr (result, data, s'), t') \<Longrightarrow> s' = s"
  by (auto simp: Expunge_handler_def Delete_handler_def Copy_handler_def SetFlags_handler_def
                 server_expunge_def server_uid_store_def server_uid_copy_def
           split: sum.splits prod.splits)

lemma Move_handler_keeps_seen:
  "Move_handler env folder listofuids s t = (Inr (result, data, s'), t') \<Longrightarrow> s' = s"
  by (auto simp: Move_handler_def split: sum.splits prod.splits if_splits
           dest!: imap_handlers_keep_seen)

lemma SetFlagsAndMove_handler_keeps_seen:
  "SetFlagsAndMove_handler env flag folder listofuids s t = (Inr (result, data, s'), t') \<Longrightarrow> s' = s"
  by (auto simp: SetFlagsAndMove_handler_def split: sum.splits prod.splits if_splits
           dest!: imap_handlers_keep_seen Move_handler_keeps_seen)

lemma content_loops_mono:
  "for_ret_in_data (WorkEmail_item env config) data s t = (Inr s', t') \<Longrightarrow> s \<subseteq> s'"
  "for_ret_in_data (Obnoxious_item env config) data s t = (Inr s', t') \<Longrightarrow> s \<subseteq> s'"
  "for_ret_in_data (proxy_process_email env config) data s t = (Inr s', t') \<Longrightarrow> s \<subseteq> s'"
  by (erule for_ret_in_data_mono [rotated], erule WorkEmail_item_mono,
      erule for_ret_in_data_mono [rotated], erule Obnoxious_item_mono,
      erule for_ret_in_data_mono [rotated], erule proxy_process_email_mono)

lemma handle_mono:
  assumes "handle env config handlef listofuids s t = (Inr (result, data, s'), t')"
  shows "s \<subseteq> s'"
proof (cases handlef)
  case WorkEmail
  with assms show ?thesis
    by (auto simp: WorkEmail_handler_def server_uid_fetch_def split: sum.splits prod.splits
             dest!: content_loops_mono)
next
  case Obnoxious
  with assms show ?thesis
    by (auto simp: Obnoxious_handler_def server_uid_fetch_def split: sum.splits prod.splits
             dest!: content_loops_mono)
next
  case Proxy
  with assms show ?thesis
    by (auto simp: Proxy_handler_def server_uid_fetch_def split: sum.splits prod.splits
             dest!: content_loops_mono)
qed (use assms in \<open>auto dest!: imap_handlers_keep_seen Move_handler_keeps_seen
        SetFlagsAndMove_handler_keeps_seen\<close>)

lemma for_handlef_mono:
  "for_handlef_in_handler_funcs env config handler_funcs listofuids result s t =
     (Inr (result', s'), t') \<Longrightarrow> s \<subseteq> s'"
proof (induction handler_funcs arbitrary: result s t)
  case Nil
  then show ?case by simp
next
  case (Cons handlef rest)
  show ?case
  proof (cases "result = ''OK''")
    case False
    with Cons.prems show ?thesis by (simp add: handlers_after_not_OK)
  next
    case True
    obtain r t1 where step: "handle env config handlef listofuids s t = (r, t1)"
      by (cases "handle env config handlef listofuids s t")
    with Cons.prems True obtain res data s1 where r: "r = Inr (res, data, s1)"
      by (cases r) auto
    with step have "s \<subseteq> s1" by (auto dest: handle_mono)
    moreover from Cons.prems True step r
    have "for_handlef_in_handler_funcs env config rest listofuids res s1 t1 = (Inr (result', s'), t')"
      by simp
    then have "s1 \<subseteq> s'" by (rule Cons.IH)
    ultimately show ?thesis by blast
  qed
qed

lemma for_query_generations:
  "for_query_def_in_queries env config queries result cur prev t = (Inr (result', cur'), t') \<Longrightarrow>
   cur \<inter> prev = {} \<Longrightarrow> cur' \<inter> prev = {} \<and> cur \<subseteq> cur'"
proof (induction queries arbitrary: result cur t)
  case Nil
  then show ?case by simp
next
  case (Cons query_def rest)
  obtain query handler_funcs where qd: "query_def = (query, handler_funcs)" by (cases query_def)
  show ?case
  proof (cases "imap_search env t query")
    case (Inl e)
    with Cons.prems qd show ?thesis by (simp add: server_uid_search_def)
  next
    case (Inr found)
    obtain result1 listofuids where found: "found = (result1, listofuids)" by (cases found)
    show ?thesis
    proof (cases "result1 = ''OK'' \<and> listofuids \<noteq> []")
      case False
      with Cons.prems qd Inr found
      have "for_query_def_in_queries env config rest result1 cur prev (t @ [Imap_search query]) =
              (Inr (result', cur'), t')"
        by (auto simp: server_uid_search_def split: if_splits)
      then show ?thesis using Cons.prems(2) by (rule Cons.IH)
    next
      case True
      obtain r t2 where run:
        "for_handlef_in_handler_funcs env config handler_funcs listofuids ''OK''
           (cur \<union> prev) (t @ [Imap_search query]) = (r, t2)"
        by (cases "for_handlef_in_handler_funcs env config handler_funcs listofuids ''OK''
                     (cur \<union> prev) (t @ [Imap_search query])")
      with Cons.prems qd Inr found True obtain result2 seen_ids where r: "r = Inr (result2, seen_ids)"
        by (cases r) (auto simp: server_uid_search_def)
      with run have mono: "cur \<union> prev \<subseteq> seen_ids" by (auto dest: for_handlef_mono)
      from Cons.prems qd Inr found True run r
      have rest: "for_query_def_in_queries env config rest result2 (seen_ids - prev) prev t2 =
              (Inr (result', cur'), t')"
        by (simp add: server_uid_search_def)
      have "(seen_ids - prev) \<inter> prev = {}" by blast
      with rest have "cur' \<inter> prev = {} \<and> seen_ids - prev \<subseteq> cur'" by (rule Cons.IH)
      moreover from mono Cons.prems(2) have "cur \<subseteq> seen_ids - prev" by blast
      ultimately show ?thesis by blast
    qed
  qed
qed

text \<open>The WorkEmail handler on the message \<^verbatim>\<open><m1>\<close>, unseen and seen.\<close>

lemma WorkEmail_handler_m1_unseen:
  "WorkEmail_handler example_env example_config [''1''] {} [Imap_search ''(FROM boss@)''] =
     (Inr (''OK'', [Tuple [''1 (RFC822'', ''m1''], Bytes '')''], {Some ''<m1>''}),
      [Imap_search ''(FROM boss@)'', Imap_fetch [''1''],
       Smtp_send ''forwarder@example.com'' (Some ''work@workplace.edu'')
         (WorkEmail_forward example_config mail_m1),
       Smtp_send ''answermachine@example.com'' (Some ''actual-boss@workplace.edu'')
         (WorkEmail_reply example_config mail_m1)])"
proof -
  have sender: "WorkEmail_sender mail_m1 = Some ''actual-boss@workplace.edu''"
    by (simp add: WorkEmail_sender_def py_or_def truthy_def getitem_mail_m1)
  have addrs: "work_forward_by example_config = ''forwarder@example.com''"
    "work_forward_to example_config = ''work@workplace.edu''"
    "work_reply_from example_config = ''answermachine@example.com''"
    by (simp_all add: example_config_def)
  have item: "WorkEmail_item example_env example_config (Tuple [''1 (RFC822'', ''m1'']) {}
                [Imap_search ''(FROM boss@)'', Imap_fetch [''1'']] =
     (Inr {Some ''<m1>''},
      [Imap_search ''(FROM boss@)'', Imap_fetch [''1''],
       Smtp_send ''forwarder@example.com'' (Some ''work@workplace.edu'')
         (WorkEmail_forward example_config mail_m1),
       Smtp_send ''answermachine@example.com'' (Some ''actual-boss@workplace.edu'')
         (WorkEmail_reply example_config mail_m1)])"
    unfolding WorkEmail_item_def WorkEmail_process_def build_message_def call_send_fn_def
      except_SMTPException_def should_process_message_def
    by (simp add: example_env_def example_parse_def headers_examples getitem_mail_m1 sender addrs)
  have rest: "WorkEmail_item example_env example_config (Bytes '')'') s t = (Inr s, t)" for s t
    by (simp add: WorkEmail_item_def)
  show ?thesis
    unfolding WorkEmail_handler_def server_uid_fetch_def
    by (simp add: example_env_def item [unfolded example_env_def] rest [unfolded example_env_def])
qed

lemma WorkEmail_handler_m1_seen:
  "WorkEmail_handler example_env example_config [''1''] {Some ''<m1>''} [Imap_search ''(FROM boss@)''] =
     (Inr (''OK'', [Tuple [''1 (RFC822'', ''m1''], Bytes '')''], {Some ''<m1>''}),
      [Imap_search ''(FROM boss@)'', Imap_fetch [''1'']])"
proof -
  have item: "WorkEmail_item example_env example_config (Tuple [''1 (RFC822'', ''m1'']) {Some ''<m1>''}
                [Imap_search ''(FROM boss@)'', Imap_fetch [''1'']] =
     (Inr {Some ''<m1>''}, [Imap_search ''(FROM boss@)'', Imap_fetch [''1'']])"
    by (simp add: WorkEmail_item_def should_process_message_def example_env_def example_parse_def
          headers_examples getitem_mail_m1)
  have rest: "WorkEmail_item example_env example_config (Bytes '')'') s t = (Inr s, t)" for s t
    by (simp add: WorkEmail_item_def)
  show ?thesis
    unfolding WorkEmail_handler_def server_uid_fetch_def
    by (simp add: example_env_def item [unfolded example_env_def] rest [unfolded example_env_def])
qed

text \<open>The rule after a search that the server answered with NO.\<close>

lemma later_rule_runs:
  "for_query_def_in_queries search_failing_env example_config
       [(''(FROM spam@)'', [Delete, Expunge])] ''NO'' {} {} [Imap_search ''(TO newsletter@)''] =
     (Inr (''OK'', {}),
      [Imap_search ''(TO newsletter@)'', Imap_search ''(FROM spam@)'',
       Imap_store [''7''] deleted_flag, Imap_expunge])"
  by (simp add: search_failing_env_def example_env_def server_uid_search_def
        Delete_handler_def Expunge_handler_def server_uid_store_def server_expunge_def)

text \<open>
  Claim C2. A wake-up (a round of the loop with a true response) runs the queries with an
  empty current set and with the current set of the round before as previous set, and
  hands the resulting current set on with that previous set; a round without wake-up
  hands both sets on unchanged. For a query whose search returns OK with at least one
  UID, the handlers receive current and previous together, and the queries after it run
  with what the handlers return minus previous. Hence, through the whole pass, the current
  set stays disjoint from the previous one and only grows.
\<close>

theorem dedup_generations:
  "runQueries_while (Suc fuel) env config queries ''OK'' True cur prev t =
     (case for_query_def_in_queries env config queries ''OK'' {} cur t of
        (Inl e, t1) \<Rightarrow> Some (Inl e, t1)
      | (Inr (result1, cur'), t1) \<Rightarrow>
          (case idle env t1 of
             (Inl e, t2) \<Rightarrow> Some (Inl e, t2)
           | (Inr (result2, response2), t2) \<Rightarrow>
               runQueries_while fuel env config queries result2 (response2 \<noteq> []) cur' cur t2)) \<and>
   runQueries_while (Suc fuel) env config queries ''OK'' False cur prev t =
     (case idle env t of
        (Inl e, t2) \<Rightarrow> Some (Inl e, t2)
      | (Inr (result2, response2), t2) \<Rightarrow>
          runQueries_while fuel env config queries result2 (response2 \<noteq> []) cur prev t2) \<and>
   (imap_search env t query = Inr (''OK'', listofuids) \<and> listofuids \<noteq> [] \<longrightarrow>
      for_query_def_in_queries env config ((query, handler_funcs) # rest) result cur prev t =
        (case for_handlef_in_handler_funcs env config handler_funcs listofuids ''OK''
                (cur \<union> prev) (t @ [Imap_search query]) of
           (Inl e, t2) \<Rightarrow> (Inl e, t2)
         | (Inr (result2, seen_ids), t2) \<Rightarrow>
             for_query_def_in_queries env config rest result2 (seen_ids - prev) prev t2)) \<and>
   (cur \<inter> prev = {} \<and>
    for_query_def_in_queries env config queries result cur prev t = (Inr (result', cur'), t') \<longrightarrow>
      cur' \<inter> prev = {} \<and> cur \<subseteq> cur')"
proof (intro conjI impI)
  show "runQueries_while (Suc fuel) env config queries ''OK'' True cur prev t =
     (case for_query_def_in_queries env config queries ''OK'' {} cur t of
        (Inl e, t1) \<Rightarrow> Some (Inl e, t1)
      | (Inr (result1, cur'), t1) \<Rightarrow>
          (case idle env t1 of
             (Inl e, t2) \<Rightarrow> Some (Inl e, t2)
           | (Inr (result2, response2), t2) \<Rightarrow>
               runQueries_while fuel env config queries result2 (response2 \<noteq> []) cur' cur t2))"
    by (simp split: prod.splits sum.splits)
next
  show "runQueries_while (Suc fuel) env config queries ''OK'' False cur prev t =
     (case idle env t of
        (Inl e, t2) \<Rightarrow> Some (Inl e, t2)
      | (Inr (result2, response2), t2) \<Rightarrow>
          runQueries_while fuel env config queries result2 (response2 \<noteq> []) cur prev t2)"
    by (simp split: prod.splits sum.splits)
next
  assume "imap_search env t query = Inr (''OK'', listofuids) \<and> listofuids \<noteq> []"
  then show "for_query_def_in_queries env config ((query, handler_funcs) # rest) result cur prev t =
        (case for_handlef_in_handler_funcs env config handler_funcs listofuids ''OK''
                (cur \<union> prev) (t @ [Imap_search query]) of
           (Inl e, t2) \<Rightarrow> (Inl e, t2)
         | (Inr (result2, seen_ids), t2) \<Rightarrow>
             for_query_def_in_queries env config rest result2 (seen_ids - prev) prev t2)"
    using search_OK_nonempty [of env t query listofuids] by blast
next
  assume a: "cur \<inter> prev = {} \<and>
    for_query_def_in_queries env config queries result cur prev t = (Inr (result', cur'), t')"
  then show "cur' \<inter> prev = {}" using for_query_generations by blast
  from a show "cur \<subseteq> cur'" using for_query_generations by blast
qed


text \<open>
  The theorem at the work rule with the message \<^verbatim>\<open><m1>\<close>: a first wake-up sends the forward
  and the reply and leaves the identifier in the current set; a wake-up that has the
  identifier in its previous set sends nothing and carries nothing on.
\<close>

theorem dedup_generations_witness:
  "for_query_def_in_queries example_env example_config [(''(FROM boss@)'', [WorkEmail])]
       ''OK'' {} {} [] =
     (Inr (''OK'', {Some ''<m1>''}),
      [Imap_search ''(FROM boss@)'', Imap_fetch [''1''],
       Smtp_send ''forwarder@example.com'' (Some ''work@workplace.edu'')
         (WorkEmail_forward example_config mail_m1),
       Smtp_send ''answermachine@example.com'' (Some ''actual-boss@workplace.edu'')
         (WorkEmail_reply example_config mail_m1)]) \<and>
   for_query_def_in_queries example_env example_config [(''(FROM boss@)'', [WorkEmail])]
       ''OK'' {} {Some ''<m1>''} [] =
     (Inr (''OK'', {}), [Imap_search ''(FROM boss@)'', Imap_fetch [''1'']])"
proof -
  have found: "imap_search example_env [] ''(FROM boss@)'' = Inr (''OK'', [''1'']) \<and> [''1''] \<noteq> []"
    by (simp add: example_env_def)
  from dedup_generations [where env = example_env and t = "[]" and query = "''(FROM boss@)''"
      and listofuids = "[''1'']" and config = example_config and handler_funcs = "[WorkEmail]"
      and rest = "[]" and result = "''OK''" and cur = "{}" and prev = "{}"] found
  have first: "for_query_def_in_queries example_env example_config [(''(FROM boss@)'', [WorkEmail])]
       ''OK'' {} {} [] =
     (case for_handlef_in_handler_funcs example_env example_config [WorkEmail] [''1''] ''OK''
             ({} \<union> {}) ([] @ [Imap_search ''(FROM boss@)'']) of
        (Inl e, t2) \<Rightarrow> (Inl e, t2)
      | (Inr (result2, seen_ids), t2) \<Rightarrow>
          for_query_def_in_queries example_env example_config [] result2 (seen_ids - {}) {} t2)"
    by blast
  from dedup_generations [where env = example_env and t = "[]" and query = "''(FROM boss@)''"
      and listofuids = "[''1'']" and config = example_config and handler_funcs = "[WorkEmail]"
      and rest = "[]" and result = "''OK''" and cur = "{}" and prev = "{Some ''<m1>''}"] found
  have second: "for_query_def_in_queries example_env example_config [(''(FROM boss@)'', [WorkEmail])]
       ''OK'' {} {Some ''<m1>''} [] =
     (case for_handlef_in_handler_funcs example_env example_config [WorkEmail] [''1''] ''OK''
             ({} \<union> {Some ''<m1>''}) ([] @ [Imap_search ''(FROM boss@)'']) of
        (Inl e, t2) \<Rightarrow> (Inl e, t2)
      | (Inr (result2, seen_ids), t2) \<Rightarrow>
          for_query_def_in_queries example_env example_config [] result2
            (seen_ids - {Some ''<m1>''}) {Some ''<m1>''} t2)"
    by blast
  have "for_query_def_in_queries example_env example_config [(''(FROM boss@)'', [WorkEmail])]
       ''OK'' {} {} [] =
     (Inr (''OK'', {Some ''<m1>''}),
      [Imap_search ''(FROM boss@)'', Imap_fetch [''1''],
       Smtp_send ''forwarder@example.com'' (Some ''work@workplace.edu'')
         (WorkEmail_forward example_config mail_m1),
       Smtp_send ''answermachine@example.com'' (Some ''actual-boss@workplace.edu'')
         (WorkEmail_reply example_config mail_m1)])"
    unfolding first by (simp add: WorkEmail_handler_m1_unseen)
  moreover have "for_query_def_in_queries example_env example_config [(''(FROM boss@)'', [WorkEmail])]
       ''OK'' {} {Some ''<m1>''} [] =
     (Inr (''OK'', {}), [Imap_search ''(FROM boss@)'', Imap_fetch [''1'']])"
    unfolding second by (simp add: WorkEmail_handler_m1_seen)
  ultimately show ?thesis by blast
qed

text \<open>
  Claim C3, as amended. When the search of a rule returns a status other than OK, no
  handler of that rule runs and the pass goes on with the next rule: later rules are
  searched and run. Only a search that raises ends the pass, with that exception. When a
  handler returns a status other than OK, the remaining handlers of that rule are
  skipped, and the pass goes on with the next rule.
\<close>

theorem search_failure_skips_one_rule:
  "(imap_search env t query = Inr (result', listofuids) \<and> result' \<noteq> ''OK'' \<longrightarrow>
      for_query_def_in_queries env config ((query, handler_funcs) # rest) result cur prev t =
        for_query_def_in_queries env config rest result' cur prev (t @ [Imap_search query])) \<and>
   (imap_search env t query = Inl e \<longrightarrow>
      for_query_def_in_queries env config ((query, handler_funcs) # rest) result cur prev t =
        (Inl e, t @ [Imap_search query])) \<and>
   (handle env config handlef uids seen_ids t1 = (Inr (failed, data, seen_ids'), t2) \<and>
    failed \<noteq> ''OK'' \<longrightarrow>
      for_handlef_in_handler_funcs env config (handlef # later) uids ''OK'' seen_ids t1 =
        (Inr (failed, seen_ids'), t2)) \<and>
   (imap_search env t query = Inr (''OK'', listofuids) \<and> listofuids \<noteq> [] \<and>
    for_handlef_in_handler_funcs env config handler_funcs listofuids ''OK'' (cur \<union> prev)
        (t @ [Imap_search query]) = (Inr (result2, seen2), t3) \<longrightarrow>
      for_query_def_in_queries env config ((query, handler_funcs) # rest) result cur prev t =
        for_query_def_in_queries env config rest result2 (seen2 - prev) prev t3)"
proof (intro conjI impI)
  assume "imap_search env t query = Inr (result', listofuids) \<and> result' \<noteq> ''OK''"
  then show "for_query_def_in_queries env config ((query, handler_funcs) # rest) result cur prev t =
        for_query_def_in_queries env config rest result' cur prev (t @ [Imap_search query])"
    using search_not_OK [of env t query result' listofuids] by blast
next
  assume "imap_search env t query = Inl e"
  then show "for_query_def_in_queries env config ((query, handler_funcs) # rest) result cur prev t =
        (Inl e, t @ [Imap_search query])"
    by (rule search_raises)
next
  assume "handle env config handlef uids seen_ids t1 = (Inr (failed, data, seen_ids'), t2) \<and>
    failed \<noteq> ''OK''"
  then show "for_handlef_in_handler_funcs env config (handlef # later) uids ''OK'' seen_ids t1 =
        (Inr (failed, seen_ids'), t2)"
    using handler_not_OK [of env config handlef uids seen_ids t1 failed data seen_ids' t2] by blast
next
  assume a: "imap_search env t query = Inr (''OK'', listofuids) \<and> listofuids \<noteq> [] \<and>
    for_handlef_in_handler_funcs env config handler_funcs listofuids ''OK'' (cur \<union> prev)
        (t @ [Imap_search query]) = (Inr (result2, seen2), t3)"
  then have "for_query_def_in_queries env config ((query, handler_funcs) # rest) result cur prev t =
     (case for_handlef_in_handler_funcs env config handler_funcs listofuids ''OK''
             (cur \<union> prev) (t @ [Imap_search query]) of
        (Inl e, t2) \<Rightarrow> (Inl e, t2)
      | (Inr (result2, seen_ids), t2) \<Rightarrow>
          for_query_def_in_queries env config rest result2 (seen_ids - prev) prev t2)"
    using search_OK_nonempty [of env t query listofuids] by blast
  with a show "for_query_def_in_queries env config ((query, handler_funcs) # rest) result cur prev t =
        for_query_def_in_queries env config rest result2 (seen2 - prev) prev t3"
    by simp
qed

text \<open>
  The theorem at a server that answers NO to the search of the newsletter rule: the
  handlers of that rule do not run, the next rule is searched and its handlers run.
\<close>

theorem search_failure_skips_one_rule_witness:
  "for_query_def_in_queries search_failing_env example_config
       [(''(TO newsletter@)'', [Move ''INBOX.Later'', Expunge]),
        (''(FROM spam@)'', [Delete, Expunge])] ''OK'' {} {} [] =
     (Inr (''OK'', {}),
      [Imap_search ''(TO newsletter@)'', Imap_search ''(FROM spam@)'',
       Imap_store [''7''] deleted_flag, Imap_expunge])"
proof -
  have failed: "imap_search search_failing_env [] ''(TO newsletter@)'' = Inr (''NO'', []) \<and>
      ''NO'' \<noteq> ''OK''"
    by (simp add: search_failing_env_def)
  from search_failure_skips_one_rule [where env = search_failing_env and t = "[]"
      and query = "''(TO newsletter@)''" and result' = "''NO''" and listofuids = "[]"
      and config = example_config and handler_funcs = "[Move ''INBOX.Later'', Expunge]"
      and rest = "[(''(FROM spam@)'', [Delete, Expunge])]" and result = "''OK''"
      and cur = "{}" and prev = "{}"] failed
  have "for_query_def_in_queries search_failing_env example_config
       [(''(TO newsletter@)'', [Move ''INBOX.Later'', Expunge]),
        (''(FROM spam@)'', [Delete, Expunge])] ''OK'' {} {} [] =
     for_query_def_in_queries search_failing_env example_config
       [(''(FROM spam@)'', [Delete, Expunge])] ''NO'' {} {} ([] @ [Imap_search ''(TO newsletter@)''])"
    by blast
  then show ?thesis
    by (simp only: later_rule_runs append_Nil)
qed

text \<open>
  The claim as stated fails on the same pass: the search of the first rule returns NO,
  and the second rule is still searched and executed in that wake-up.
\<close>

theorem search_failure_counterexample:
  "imap_search search_failing_env [] ''(TO newsletter@)'' = Inr (''NO'', []) \<and>
   snd (for_query_def_in_queries search_failing_env example_config
          [(''(TO newsletter@)'', [Move ''INBOX.Later'', Expunge]),
           (''(FROM spam@)'', [Delete, Expunge])] ''OK'' {} {} []) =
     [Imap_search ''(TO newsletter@)'', Imap_search ''(FROM spam@)'',
      Imap_store [''7''] deleted_flag, Imap_expunge]"
  by (simp add: search_failing_env_def example_env_def server_uid_search_def
        Delete_handler_def Expunge_handler_def server_uid_store_def server_expunge_def)

section \<open>The supervisor\<close>

lemma idle_unsupported:
  "''IDLE'' \<notin> set (capabilities env) \<Longrightarrow> idle env t = (Inl IMAP4_error, t)"
  by (simp add: idle_def)

lemma runQueries_unsupported:
  assumes "''IDLE'' \<notin> set (capabilities env)"
    and "for_query_def_in_queries env config queries ''OK'' {} {} t = (Inr (result, cur), t1)"
  shows "runQueries (Suc fuel) env config queries t = Some (Inl IMAP4_error, t1)"
  using assms by (simp add: runQueries_def idle_unsupported)

lemma run_try_unsupported:
  assumes "''IDLE'' \<notin> set (capabilities env)" and "imap_connect env t = Inr ()"
    and "for_query_def_in_queries env config queries ''OK'' {} {} (t @ [Imap_connect]) =
           (Inr (result, cur), t1)"
  shows "run_try (Suc fuel) env config queries t = Some (Inl IMAP4_error, t1)"
  using assms(2) runQueries_unsupported [OF assms(1) assms(3), of fuel]
  by (simp add: run_try_def connect_and_select_def)

lemma run_while_once_raises:
  "run_try fuel env config queries t = Some (Inl e, t') \<Longrightarrow> e \<noteq> KeyboardInterrupt \<Longrightarrow>
   run_while (Suc n) fuel env config queries True initial_delay max_delay retry_delay t =
     Some (Inl e, t')"
  by simp

lemma run_while_daemon_retries:
  "run_try fuel env config queries t = Some (Inl e, t') \<Longrightarrow>
   is_socket_error_or_abort e \<or> (e \<noteq> KeyboardInterrupt \<and> is_Exception e) \<Longrightarrow>
   run_while (Suc n) fuel env config queries False initial_delay max_delay retry_delay t =
     run_while n fuel env config queries False initial_delay max_delay
       (min (retry_delay * 2) max_delay) (t' @ [Time_sleep retry_delay])"
  by auto



text \<open>The runs of the two concrete stores that the supervisor cannot keep a session with.\<close>

lemma no_idle_pass:
  "for_query_def_in_queries no_idle_env example_config [(''(TO newsletter@)'', [Expunge])]
       ''OK'' {} {} ([] @ [Imap_connect]) =
     (Inr (''OK'', {}), [Imap_connect, Imap_search ''(TO newsletter@)'', Imap_expunge])"
  by (simp add: no_idle_env_def example_env_def server_uid_search_def Expunge_handler_def
        server_expunge_def)

lemma no_idle_second_attempt:
  "run_while (Suc 0) (Suc 0) no_idle_env example_config [(''(TO newsletter@)'', [Expunge])]
       False 60 3600 (min (60 * 2) 3600)
       ([Imap_connect, Imap_search ''(TO newsletter@)'', Imap_expunge] @ [Time_sleep 60]) =
     Some (Inr (), [Imap_connect, Imap_search ''(TO newsletter@)'', Imap_expunge,
                    Time_sleep 60, Imap_connect])"
  by (simp add: run_try_def connect_and_select_def no_idle_env_def example_env_def
        is_socket_error_or_abort_def)




text \<open>
  Claim C7, as amended. When the store does not announce the IDLE capability,
  \<^verbatim>\<open>idle\<close> raises at once, before any command is sent. When the connection succeeds and
  the first pass over the queries returns, the supervisor in single-pass mode lets this
  error through to its caller; in daemon mode it treats it like any other exception: it
  sleeps for the current retry delay, doubles the delay up to the maximum, and connects
  again.
\<close>

theorem idle_unsupported_is_retried_by_daemon:
  assumes "''IDLE'' \<notin> set (capabilities env)"
  shows "idle env t = (Inl IMAP4_error, t) \<and>
    (imap_connect env t = Inr () \<and>
     for_query_def_in_queries env config queries ''OK'' {} {} (t @ [Imap_connect]) =
       (Inr (result, cur), t1) \<longrightarrow>
       run_while (Suc n) (Suc fuel) env config queries True initial_delay max_delay retry_delay t =
         Some (Inl IMAP4_error, t1) \<and>
       run_while (Suc n) (Suc fuel) env config queries False initial_delay max_delay retry_delay t =
         run_while n (Suc fuel) env config queries False initial_delay max_delay
           (min (retry_delay * 2) max_delay) (t1 @ [Time_sleep retry_delay]))"
proof (intro conjI impI)
  show "idle env t = (Inl IMAP4_error, t)"
    using assms by (rule idle_unsupported)
next
  assume a: "imap_connect env t = Inr () \<and>
     for_query_def_in_queries env config queries ''OK'' {} {} (t @ [Imap_connect]) =
       (Inr (result, cur), t1)"
  then have tried: "run_try (Suc fuel) env config queries t = Some (Inl IMAP4_error, t1)"
    using run_try_unsupported [OF assms, of t config queries result cur t1 fuel] by blast
  from tried show "run_while (Suc n) (Suc fuel) env config queries True initial_delay max_delay
      retry_delay t = Some (Inl IMAP4_error, t1)"
    by (rule run_while_once_raises) simp
  from tried show "run_while (Suc n) (Suc fuel) env config queries False initial_delay max_delay
      retry_delay t =
         run_while n (Suc fuel) env config queries False initial_delay max_delay
           (min (retry_delay * 2) max_delay) (t1 @ [Time_sleep retry_delay])"
    by (rule run_while_daemon_retries) (simp add: is_Exception_def)
qed

text \<open>
  The theorem at a store without IDLE, where the operator interrupts the second attempt
  to connect: single-pass mode ends with the error, daemon mode sleeps and reconnects.
\<close>

theorem idle_unsupported_is_retried_by_daemon_witness:
  "run_while (Suc (Suc 0)) (Suc 0) no_idle_env example_config [(''(TO newsletter@)'', [Expunge])]
       True 60 3600 60 [] =
     Some (Inl IMAP4_error, [Imap_connect, Imap_search ''(TO newsletter@)'', Imap_expunge]) \<and>
   run_while (Suc (Suc 0)) (Suc 0) no_idle_env example_config [(''(TO newsletter@)'', [Expunge])]
       False 60 3600 60 [] =
     Some (Inr (), [Imap_connect, Imap_search ''(TO newsletter@)'', Imap_expunge,
                    Time_sleep 60, Imap_connect])"
proof -
  have unsupported: "''IDLE'' \<notin> set (capabilities no_idle_env)"
    by (simp add: no_idle_env_def example_env_def)
  have connected: "imap_connect no_idle_env [] = Inr () \<and>
     for_query_def_in_queries no_idle_env example_config [(''(TO newsletter@)'', [Expunge])]
       ''OK'' {} {} ([] @ [Imap_connect]) =
     (Inr (''OK'', {}), [Imap_connect, Imap_search ''(TO newsletter@)'', Imap_expunge])"
    using no_idle_pass by (simp add: no_idle_env_def example_env_def)
  from idle_unsupported_is_retried_by_daemon [OF unsupported, where t = "[]"
      and config = example_config and queries = "[(''(TO newsletter@)'', [Expunge])]"
      and result = "''OK''" and cur = "{}"
      and ?t1.0 = "[Imap_connect, Imap_search ''(TO newsletter@)'', Imap_expunge]"
      and n = "Suc 0" and fuel = 0 and initial_delay = 60 and max_delay = 3600
      and retry_delay = 60] connected
  have once: "run_while (Suc (Suc 0)) (Suc 0) no_idle_env example_config
       [(''(TO newsletter@)'', [Expunge])] True 60 3600 60 [] =
     Some (Inl IMAP4_error, [Imap_connect, Imap_search ''(TO newsletter@)'', Imap_expunge])"
    and daemon: "run_while (Suc (Suc 0)) (Suc 0) no_idle_env example_config
       [(''(TO newsletter@)'', [Expunge])] False 60 3600 60 [] =
     run_while (Suc 0) (Suc 0) no_idle_env example_config [(''(TO newsletter@)'', [Expunge])]
       False 60 3600 (min (60 * 2) 3600)
       ([Imap_connect, Imap_search ''(TO newsletter@)'', Imap_expunge] @ [Time_sleep 60])"
    by blast+
  from once daemon no_idle_second_attempt show ?thesis by simp
qed

text \<open>
  The claim as stated fails in daemon mode: for a store without IDLE the supervisor
  sleeps 60 seconds and connects a second time.
\<close>

theorem idle_unsupported_counterexample:
  "''IDLE'' \<notin> set (capabilities no_idle_env) \<and>
   run (Suc (Suc 0)) (Suc 0) no_idle_env example_config [(''(TO newsletter@)'', [Expunge])]
       False 60 3600 [] =
     Some (Inr (), [Imap_connect, Imap_search ''(TO newsletter@)'', Imap_expunge,
                    Time_sleep 60, Imap_connect])"
  by (simp add: run_def run_try_def connect_and_select_def runQueries_def idle_def
        no_idle_env_def example_env_def server_uid_search_def Expunge_handler_def
        server_expunge_def is_socket_error_or_abort_def is_Exception_def)




end
